theory Spec2Isabelle
  imports Main "HOL-Library.AList"
begin

text \<open>
  The client of the pair-programming application: the class \<^verbatim>\<open>WebSocketService\<close>
  (services/websocket.ts) and the component \<^verbatim>\<open>CodeEditor\<close> (components/CodeEditor.tsx)
  that drives it. The program is event driven, so it is modelled as a state, the record
  \<open>world\<close>, and one function per function of the source that takes the state to the
  state after the call. The browser is part of the state: the sockets with the closures
  stored in them, the armed timers, the suggestion requests, the console. Events (socket
  events, user input, responses) come with their time; between two events the timers that
  are due fire in order. A handler that can throw returns the exception beside the state
  it reached. After a task in which a state setter was called with a new value, React
  renders the view again; a render that throws unmounts it.
\<close>

section \<open>Values on the wire\<close>

text \<open>
  What \<^verbatim>\<open>JSON.parse\<close> returns, and what the handlers read from it. An object is the
  list of its members (the first binding of a key is the member's value). Property access
  follows JavaScript: reading a property of \<^verbatim>\<open>null\<close> or \<^verbatim>\<open>undefined\<close> throws a
  TypeError, reading a missing property gives \<^verbatim>\<open>undefined\<close>. None of the keys the
  handlers read (type, data, code, user_id, user_name, user_count, position) is a property
  of a number, a string, a boolean or an array.
\<close>

datatype json =
    JUndefined
  | JNull
  | JBool bool
  | JNum int
  | JStr string
  | JArr "json list"
  | JObj "(string \<times> json) list"

datatype exn = SyntaxError | TypeError | IllegalArgument

fun get_prop :: "json \<Rightarrow> string \<Rightarrow> exn + json" where
  "get_prop JUndefined k = Inl TypeError"
| "get_prop JNull k = Inl TypeError"
| "get_prop (JObj kvs) k = Inr (case map_of kvs k of None \<Rightarrow> JUndefined | Some v \<Rightarrow> v)"
| "get_prop (JBool b) k = Inr JUndefined"
| "get_prop (JNum n) k = Inr JUndefined"
| "get_prop (JStr t) k = Inr JUndefined"
| "get_prop (JArr xs) k = Inr JUndefined"

fun truthy :: "json \<Rightarrow> bool" where
  "truthy JUndefined = False"
| "truthy JNull = False"
| "truthy (JBool b) = b"
| "truthy (JNum n) = (n \<noteq> 0)"
| "truthy (JStr t) = (t \<noteq> [])"
| "truthy (JArr xs) = True"
| "truthy (JObj kvs) = True"

section \<open>The browser: sockets, timers, requests, console\<close>

datatype ready = CONNECTING | OPEN | CLOSING | CLOSED

text \<open>
  The closures that websocket.ts stores in a socket. \<^verbatim>\<open>connect\<close> sets
  \<^verbatim>\<open>onclose\<close> to "attemptReconnect" and leaves \<^verbatim>\<open>onmessage\<close> unset;
  \<^verbatim>\<open>onMessage(callback)\<close> stores "parse, then callback"; \<^verbatim>\<open>onClose(callback)\<close>
  stores "callback, then attemptReconnect". The only callbacks ever passed are the two of
  CodeEditor.tsx (the message switch and the close notification), so a closure is the tag
  of its shape. \<open>owner\<close> is the service whose \<^verbatim>\<open>this\<close> the closures captured.
\<close>

datatype on_message = Unset | ParseThenCallback
datatype on_close = Reconnect | CallbackThenReconnect

record socket =
  owner :: nat
  readyState :: ready
  onmessage :: on_message
  onclose :: on_close

record service =
  ws :: "nat option"
  reconnectAttempts :: nat

definition maxReconnectAttempts :: nat where
  "maxReconnectAttempts = 5"

definition reconnectDelay :: nat where
  "reconnectDelay = 2000"

text \<open>The function a pending \<^verbatim>\<open>setTimeout\<close> will call, with the values it captured.\<close>

datatype callback =
    ServiceConnect nat
  | EditorReconnect
  | CursorSend nat nat
  | AiFetch string "nat \<times> nat"

record timer =
  tid :: nat
  due :: nat
  callback :: callback

datatype req_status = InFlight | Aborted | Settled

record request =
  req_code :: string
  req_position :: "nat \<times> nat"
  started :: nat
  status :: req_status

datatype log = Info string | Warn string | Error string

section \<open>The editor widget and the remote users\<close>

record decoration =
  deco_id :: nat
  deco_class :: string
  deco_line :: json
  deco_column :: json
  deco_label :: json

record monaco_editor =
  buffer :: string
  cursor :: "(nat \<times> nat) option"
  decorations :: "decoration list"
  next_decoration :: nat
  writes :: nat

record remote_user =
  userName :: json
  position :: json
  color :: string
  user_decorations :: "nat list"

section \<open>The state of one mounted CodeEditor and of the browser around it\<close>

record world =
  now :: nat
  timers :: "timer list"
  next_timer :: nat
  services :: "service list"
  sockets :: "socket list"
  requests :: "request list"
  outbox :: "(nat \<times> json) list"
  console :: "log list"
  code :: json
  connected :: bool
  userCount :: json
  isReconnecting :: bool
  aiLoading :: bool
  renders :: nat
  alive :: bool
  editorRef :: "monaco_editor option"
  wsService :: "nat option"
  remoteUsers :: "(string \<times> remote_user) list"
  isRemoteChange :: bool
  reconnectTimeout :: nat
  reconnectTimer :: "nat option"
  cursorUpdateThrottle :: "nat option"
  aiRequestController :: "nat option"
  aiDebounceTimer :: "nat option"

definition init_world :: world where
  "init_world = \<lparr>
     now = 0, timers = [], next_timer = 1, services = [], sockets = [], requests = [],
     outbox = [], console = [],
     code = JStr ''# Start coding here...'', connected = False, userCount = JNum 1,
     isReconnecting = False, aiLoading = False, renders = 0, alive = True,
     editorRef = None, wsService = None, remoteUsers = [], isRemoteChange = False,
     reconnectTimeout = 1000, reconnectTimer = None, cursorUpdateThrottle = None,
     aiRequestController = None, aiDebounceTimer = None \<rparr>"

section \<open>Browser primitives\<close>

definition console_log :: "string \<Rightarrow> world \<Rightarrow> world" where
  "console_log m s = s\<lparr>console := console s @ [Info m]\<rparr>"

definition console_warn :: "string \<Rightarrow> world \<Rightarrow> world" where
  "console_warn m s = s\<lparr>console := console s @ [Warn m]\<rparr>"

definition console_error :: "string \<Rightarrow> world \<Rightarrow> world" where
  "console_error m s = s\<lparr>console := console s @ [Error m]\<rparr>"

text \<open>\<^verbatim>\<open>setTimeout\<close> returns the identifier of the new timer; \<^verbatim>\<open>clearTimeout\<close> disarms it.\<close>

definition setTimeout :: "callback \<Rightarrow> nat \<Rightarrow> world \<Rightarrow> nat \<times> world" where
  "setTimeout cb delay s =
     (next_timer s,
      s\<lparr>timers := timers s @ [\<lparr>tid = next_timer s, due = now s + delay, callback = cb\<rparr>],
        next_timer := Suc (next_timer s)\<rparr>)"

definition clearTimeout :: "nat \<Rightarrow> world \<Rightarrow> world" where
  "clearTimeout t s = s\<lparr>timers := filter (\<lambda>x. tid x \<noteq> t) (timers s)\<rparr>"

text \<open>
  \<^verbatim>\<open>WebSocket.close()\<close> starts the closing handshake of a socket that is connecting or
  open; the close event (and with it \<^verbatim>\<open>onclose\<close>) comes later, from the browser.
\<close>

definition ws_close :: "nat \<Rightarrow> world \<Rightarrow> world" where
  "ws_close k s =
     (if readyState (sockets s ! k) = CONNECTING \<or> readyState (sockets s ! k) = OPEN
      then s\<lparr>sockets := (sockets s)[k := (sockets s ! k)\<lparr>readyState := CLOSING\<rparr>]\<rparr>
      else s)"

text \<open>
  \<^verbatim>\<open>AbortController.abort()\<close> cancels the request if it is still in flight; the rejected
  promise is handled when the running task has finished (see \<open>drain\<close>).
\<close>

definition abort :: "nat \<Rightarrow> world \<Rightarrow> world" where
  "abort r s =
     (if r < length (requests s) \<and> status (requests s ! r) = InFlight
      then s\<lparr>requests := (requests s)[r := (requests s ! r)\<lparr>status := Aborted\<rparr>]\<rparr>
      else s)"

section \<open>React state setters\<close>

text \<open>
  A setter stores the value it is given, whatever it is, and asks for a re-render only when
  the value differs from the state. The render comes at the end of the task (\<open>rerender\<close>
  below).
\<close>

definition setCode :: "json \<Rightarrow> world \<Rightarrow> world" where
  "setCode v s = (if code s = v then s else s\<lparr>code := v, renders := Suc (renders s)\<rparr>)"

definition setConnected :: "bool \<Rightarrow> world \<Rightarrow> world" where
  "setConnected v s = (if connected s = v then s else s\<lparr>connected := v, renders := Suc (renders s)\<rparr>)"

definition setUserCount :: "json \<Rightarrow> world \<Rightarrow> world" where
  "setUserCount v s = (if userCount s = v then s else s\<lparr>userCount := v, renders := Suc (renders s)\<rparr>)"

definition setIsReconnecting :: "bool \<Rightarrow> world \<Rightarrow> world" where
  "setIsReconnecting v s =
     (if isReconnecting s = v then s else s\<lparr>isReconnecting := v, renders := Suc (renders s)\<rparr>)"

definition setAiLoading :: "bool \<Rightarrow> world \<Rightarrow> world" where
  "setAiLoading v s = (if aiLoading s = v then s else s\<lparr>aiLoading := v, renders := Suc (renders s)\<rparr>)"

section \<open>websocket.ts: class WebSocketService\<close>

definition connect :: "nat \<Rightarrow> world \<Rightarrow> world" where
  "connect i s =
     (let s1 = console_log ''Connecting to WebSocket:'' s;
          k = length (sockets s1)
      in s1\<lparr>sockets := sockets s1 @
                 [\<lparr>owner = i, readyState = CONNECTING, onmessage = Unset, onclose = Reconnect\<rparr>],
            services := (services s1)[i := (services s1 ! i)\<lparr>ws := Some k\<rparr>]\<rparr>)"

definition new_WebSocketService :: "world \<Rightarrow> nat \<times> world" where
  "new_WebSocketService s =
     (let i = length (services s)
      in (i, connect i (s\<lparr>services := services s @ [\<lparr>ws = None, reconnectAttempts = 0\<rparr>]\<rparr>)))"

definition onopen :: "nat \<Rightarrow> world \<Rightarrow> world" where
  "onopen i s =
     (let s1 = console_log ''WebSocket connected'' s
      in s1\<lparr>services := (services s1)[i := (services s1 ! i)\<lparr>reconnectAttempts := 0\<rparr>]\<rparr>)"

definition service_attemptReconnect :: "nat \<Rightarrow> world \<Rightarrow> world" where
  "service_attemptReconnect i s =
     (if reconnectAttempts (services s ! i) < maxReconnectAttempts then
        (let s1 = s\<lparr>services := (services s)[i := (services s ! i)
                       \<lparr>reconnectAttempts := Suc (reconnectAttempts (services s ! i))\<rparr>]\<rparr>;
             s2 = console_log ''Reconnecting... Attempt'' s1
         in snd (setTimeout (ServiceConnect i) reconnectDelay s2))
      else console_error ''Max reconnection attempts reached'' s)"

definition onMessage :: "nat \<Rightarrow> world \<Rightarrow> world" where
  "onMessage i s =
     (case ws (services s ! i) of
        None \<Rightarrow> s
      | Some k \<Rightarrow> s\<lparr>sockets := (sockets s)[k := (sockets s ! k)\<lparr>onmessage := ParseThenCallback\<rparr>]\<rparr>)"

definition onClose :: "nat \<Rightarrow> world \<Rightarrow> world" where
  "onClose i s =
     (case ws (services s ! i) of
        None \<Rightarrow> s
      | Some k \<Rightarrow> s\<lparr>sockets := (sockets s)[k := (sockets s ! k)\<lparr>onclose := CallbackThenReconnect\<rparr>]\<rparr>)"

definition send :: "nat \<Rightarrow> json \<Rightarrow> world \<Rightarrow> world" where
  "send i message s =
     (case ws (services s ! i) of
        None \<Rightarrow> console_warn ''WebSocket is not connected. Message not sent:'' s
      | Some k \<Rightarrow>
          if readyState (sockets s ! k) = OPEN
          then s\<lparr>outbox := outbox s @ [(k, message)]\<rparr>
          else console_warn ''WebSocket is not connected. Message not sent:'' s)"

definition sendCodeUpdate :: "nat \<Rightarrow> string \<Rightarrow> world \<Rightarrow> world" where
  "sendCodeUpdate i c s =
     send i (JObj [(''type'', JStr ''code_update''), (''data'', JObj [(''code'', JStr c)])]) s"

definition sendCursorPosition :: "nat \<Rightarrow> nat \<Rightarrow> nat \<Rightarrow> world \<Rightarrow> world" where
  "sendCursorPosition i line column s =
     send i (JObj [(''type'', JStr ''cursor_position''),
                   (''data'', JObj [(''line'', JNum (int line)), (''column'', JNum (int column))])]) s"

definition disconnect :: "nat \<Rightarrow> world \<Rightarrow> world" where
  "disconnect i s =
     (case ws (services s ! i) of
        None \<Rightarrow> s
      | Some k \<Rightarrow>
          (let s1 = ws_close k s
           in s1\<lparr>services := (services s1)[i := (services s1 ! i)\<lparr>ws := None\<rparr>]\<rparr>))"

section \<open>CodeEditor.tsx: cursors of the remote users\<close>

definition USER_COLORS :: "string list" where
  "USER_COLORS = [''#FF6B6B'', ''#4ECDC4'', ''#45B7D1'', ''#96CEB4'', ''#FFEAA7'',
                  ''#DDA15E'', ''#BC6C25'', ''#F4A261'', ''#E76F51'', ''#2A9D8F'']"

definition getUserColor :: "string \<Rightarrow> string" where
  "getUserColor userId =
     (let hash = foldl (\<lambda>acc c. acc + (of_char c :: nat)) 0 userId
      in USER_COLORS ! (hash mod length USER_COLORS))"

text \<open>
  The editor's \<^verbatim>\<open>deltaDecorations(old, new)\<close>: the decorations named in \<open>old\<close> are
  released, the new ones are painted, and their fresh handles are returned.
\<close>

definition deltaDecorations ::
  "nat list \<Rightarrow> (string \<times> json \<times> json \<times> json) list \<Rightarrow> monaco_editor \<Rightarrow> nat list \<times> monaco_editor" where
  "deltaDecorations old new ed =
     (let kept = filter (\<lambda>d. deco_id d \<notin> set old) (decorations ed);
          ids = [next_decoration ed ..< next_decoration ed + length new];
          added = map (\<lambda>(n, cl, li, co, la).
                    \<lparr>deco_id = n, deco_class = cl, deco_line = li, deco_column = co, deco_label = la\<rparr>)
                    (zip ids new)
      in (ids, ed\<lparr>decorations := kept @ added,
                  next_decoration := next_decoration ed + length new\<rparr>))"

text \<open>
  \<^verbatim>\<open>updateRemoteCursor\<close>. A user identifier that is not a string is never a key of
  the map, so the user is created, and \<^verbatim>\<open>getUserColor\<close> throws at
  \<^verbatim>\<open>userId.split\<close>. The style sheet injected into the document is not part of the
  state modelled here.
\<close>

definition updateRemoteCursor :: "json \<Rightarrow> json \<Rightarrow> json \<Rightarrow> world \<Rightarrow> world \<times> exn option" where
  "updateRemoteCursor userId name pos s =
     (case editorRef s of
        None \<Rightarrow> (s, None)
      | Some ed \<Rightarrow>
          (case userId of
             JStr u \<Rightarrow>
               (let user = (case map_of (remoteUsers s) u of
                              Some x \<Rightarrow> x
                            | None \<Rightarrow> \<lparr>userName = name, position = pos, color = getUserColor u,
                                       user_decorations = []\<rparr>);
                    s1 = s\<lparr>remoteUsers := AList.update u (user\<lparr>position := pos\<rparr>) (remoteUsers s)\<rparr>
                in case get_prop pos ''line'' of
                     Inl e \<Rightarrow> (s1, Some e)
                   | Inr line \<Rightarrow>
                 (case get_prop pos ''column'' of
                     Inl e \<Rightarrow> (s1, Some e)
                   | Inr column \<Rightarrow>
                       (case deltaDecorations (user_decorations user)
                               [(''remote-cursor remote-cursor-'' @ u, line, column, name)] ed of
                          (ids, ed') \<Rightarrow>
                            (s1\<lparr>editorRef := Some ed',
                                remoteUsers := AList.update u
                                  (user\<lparr>position := pos, user_decorations := ids\<rparr>) (remoteUsers s)\<rparr>,
                             None))))
           | _ \<Rightarrow> (s, Some TypeError)))"

definition removeRemoteCursor :: "json \<Rightarrow> world \<Rightarrow> world" where
  "removeRemoteCursor userId s =
     (case editorRef s of
        None \<Rightarrow> s
      | Some ed \<Rightarrow>
          (case userId of
             JStr u \<Rightarrow>
               (case map_of (remoteUsers s) u of
                  None \<Rightarrow> s
                | Some user \<Rightarrow>
                    s\<lparr>editorRef := Some (snd (deltaDecorations (user_decorations user) [] ed)),
                      remoteUsers := AList.delete u (remoteUsers s)\<rparr>)
           | _ \<Rightarrow> s))"

section \<open>CodeEditor.tsx: the suggestion requests\<close>

text \<open>
  \<^verbatim>\<open>fetchAISuggestions\<close> up to its first \<^verbatim>\<open>await\<close>: the request is sent and its
  AbortController is stored. The request keeps the position it was given (the offset sent
  is the editor's \<^verbatim>\<open>getOffsetAt\<close> of it) and the time it started.
\<close>

definition fetchAISuggestions :: "string \<Rightarrow> nat \<times> nat \<Rightarrow> world \<Rightarrow> world" where
  "fetchAISuggestions c p s =
     (let s1 = setAiLoading True s;
          r = length (requests s1)
      in s1\<lparr>aiRequestController := Some r,
            requests := requests s1 @
              [\<lparr>req_code = c, req_position = p, started = now s1, status = InFlight\<rparr>]\<rparr>)"

text \<open>
  The rest of \<^verbatim>\<open>fetchAISuggestions\<close>, run when the request settles. What the response
  holds is the backend's business; the event says which branch the code takes: a response
  worth showing (logged), one that is not, or a failure (thrown, caught and logged).
\<close>

datatype outcome = Surface | Discard | Fail

definition fetch_finally :: "world \<Rightarrow> world" where
  "fetch_finally s = (setAiLoading False s)\<lparr>aiRequestController := None\<rparr>"

definition fetch_resumed :: "nat \<Rightarrow> outcome \<Rightarrow> world \<Rightarrow> world" where
  "fetch_resumed r out s =
     (let s1 = s\<lparr>requests := (requests s)[r := (requests s ! r)\<lparr>status := Settled\<rparr>]\<rparr>;
          s2 = (case out of
                  Surface \<Rightarrow> console_log ''AI Suggestions:'' s1
                | Discard \<Rightarrow> s1
                | Fail \<Rightarrow> console_error ''Autocomplete error:'' s1)
      in fetch_finally s2)"

text \<open>
  After each task the rejections of the aborted requests are handled: the
  \<^verbatim>\<open>catch\<close> sees an AbortError and logs nothing, the \<^verbatim>\<open>finally\<close> runs.
\<close>

definition drain :: "world \<Rightarrow> world" where
  "drain s =
     (if list_ex (\<lambda>r. status r = Aborted) (requests s)
      then fetch_finally
             (s\<lparr>requests := map (\<lambda>r. if status r = Aborted then r\<lparr>status := Settled\<rparr> else r)
                                (requests s)\<rparr>)
      else s)"

definition triggerAIAutocomplete :: "string \<Rightarrow> (nat \<times> nat) option \<Rightarrow> world \<Rightarrow> world" where
  "triggerAIAutocomplete c pos s =
     (case pos of
        None \<Rightarrow> s
      | Some p \<Rightarrow>
          if length c = 0 then s
          else
            (let s1 = (case aiDebounceTimer s of Some t \<Rightarrow> clearTimeout t s | None \<Rightarrow> s);
                 s2 = (case aiRequestController s1 of Some r \<Rightarrow> abort r s1 | None \<Rightarrow> s1)
             in case setTimeout (AiFetch c p) 500 s2 of
                  (t, s3) \<Rightarrow> s3\<lparr>aiDebounceTimer := Some t\<rparr>))"

definition requestAutocomplete :: "world \<Rightarrow> world" where
  "requestAutocomplete s =
     (case editorRef s of
        None \<Rightarrow> s
      | Some ed \<Rightarrow>
          (case cursor ed of
             None \<Rightarrow> s
           | Some p \<Rightarrow> fetchAISuggestions (buffer ed) p s))"

section \<open>CodeEditor.tsx: local cursor moves and local edits\<close>

definition sendCursorUpdate :: "nat \<Rightarrow> nat \<Rightarrow> world \<Rightarrow> world" where
  "sendCursorUpdate line column s =
     (case cursorUpdateThrottle s of
        Some t \<Rightarrow> s
      | None \<Rightarrow>
          (case setTimeout (CursorSend line column) 100 s of
             (t, s1) \<Rightarrow> s1\<lparr>cursorUpdateThrottle := Some t\<rparr>))"

definition cursor_envelope :: "nat \<Rightarrow> nat \<Rightarrow> json" where
  "cursor_envelope line column =
     JObj [(''type'', JStr ''cursor_update''),
           (''data'', JObj [(''position'',
              JObj [(''line'', JNum (int line)), (''column'', JNum (int column))])])]"

text \<open>The body of the throttle's timer.\<close>

definition cursor_timer :: "nat \<Rightarrow> nat \<Rightarrow> world \<Rightarrow> world" where
  "cursor_timer line column s =
     (let s1 = (case wsService s of
                  None \<Rightarrow> s
                | Some i \<Rightarrow> send i (cursor_envelope line column) s)
      in s1\<lparr>cursorUpdateThrottle := None\<rparr>)"

text \<open>The two listeners that \<^verbatim>\<open>handleEditorDidMount\<close> registers on the editor.\<close>

definition onDidChangeCursorPosition :: "nat \<times> nat \<Rightarrow> world \<Rightarrow> world" where
  "onDidChangeCursorPosition p s =
     (if \<not> isRemoteChange s then sendCursorUpdate (fst p) (snd p) s else s)"

definition onDidChangeModelContent :: "nat \<Rightarrow> world \<Rightarrow> world" where
  "onDidChangeModelContent changes s =
     (case editorRef s of
        None \<Rightarrow> s
      | Some ed \<Rightarrow>
          if \<not> isRemoteChange s \<and> changes > 0 then
            (let newCode = buffer ed;
                 s1 = setCode (JStr newCode) s;
                 s2 = (case wsService s1 of None \<Rightarrow> s1 | Some i \<Rightarrow> sendCodeUpdate i newCode s1)
             in triggerAIAutocomplete newCode (cursor ed) s2)
          else s)"

text \<open>
  \<^verbatim>\<open>handleEditorDidMount\<close> keeps the editor in \<^verbatim>\<open>editorRef\<close>; from then on the two
  listeners above are called on every change. The editor starts with the text of the
  \<^verbatim>\<open>value\<close> property, the React state \<open>code\<close>. (The editor component also copies a
  changed \<^verbatim>\<open>value\<close> into the buffer when the two differ after a render; whenever a
  handler below has written the buffer itself they do not differ, and that copy is left
  out.)
\<close>

definition handleEditorDidMount :: "world \<Rightarrow> world" where
  "handleEditorDidMount s =
     s\<lparr>editorRef := Some \<lparr>buffer = (case code s of JStr t \<Rightarrow> t | _ \<Rightarrow> []),
                           cursor = Some (1, 1), decorations = [], next_decoration = 0,
                           writes = 0\<rparr>\<rparr>"

text \<open>
  The editor's \<^verbatim>\<open>setValue\<close>: the buffer is replaced, which releases the decorations and
  puts the cursor at the start, and both listeners are called before it returns. A value
  that is not a string is refused with an exception.
\<close>

definition editor_setValue :: "json \<Rightarrow> world \<Rightarrow> world \<times> exn option" where
  "editor_setValue v s =
     (case editorRef s of
        None \<Rightarrow> (s, Some TypeError)
      | Some ed \<Rightarrow>
          (case v of
             JStr t \<Rightarrow>
               (onDidChangeCursorPosition (1, 1)
                  (onDidChangeModelContent 1
                     (s\<lparr>editorRef := Some (ed\<lparr>buffer := t, cursor := Some (1, 1),
                                               decorations := [], writes := Suc (writes ed)\<rparr>)\<rparr>)),
                None)
           | _ \<Rightarrow> (s, Some IllegalArgument)))"

section \<open>CodeEditor.tsx: reconnection\<close>

definition attemptReconnect :: "world \<Rightarrow> world" where
  "attemptReconnect s =
     (case reconnectTimer s of
        Some t \<Rightarrow> s
      | None \<Rightarrow>
          (case setTimeout EditorReconnect (reconnectTimeout s) (setIsReconnecting True s) of
             (t, s1) \<Rightarrow> s1\<lparr>reconnectTimer := Some t\<rparr>))"

definition initializeWebSocket :: "world \<Rightarrow> world" where
  "initializeWebSocket s =
     (case new_WebSocketService s of
        (i, s1) \<Rightarrow> onClose i (onMessage i (s1\<lparr>wsService := Some i\<rparr>)))"

text \<open>The body of the timer that \<^verbatim>\<open>attemptReconnect\<close> arms.\<close>

definition reconnect_timer :: "world \<Rightarrow> world" where
  "reconnect_timer s =
     (let s1 = console_log ''Attempting to reconnect...'' s;
          s2 = (case wsService s1 of None \<Rightarrow> s1 | Some i \<Rightarrow> disconnect i s1);
          s3 = initializeWebSocket s2
      in s3\<lparr>reconnectTimer := None,
            reconnectTimeout := min (reconnectTimeout s3 * 2) 30000\<rparr>)"

text \<open>The callback given to \<^verbatim>\<open>onClose\<close>.\<close>

definition close_callback :: "world \<Rightarrow> world" where
  "close_callback s = attemptReconnect (setConnected False s)"

text \<open>The cleanup of the effect, run when the component unmounts.\<close>

definition cleanup :: "world \<Rightarrow> world" where
  "cleanup s =
     (let s1 = (case reconnectTimer s of Some t \<Rightarrow> clearTimeout t s | None \<Rightarrow> s);
          s2 = (case cursorUpdateThrottle s1 of Some t \<Rightarrow> clearTimeout t s1 | None \<Rightarrow> s1);
          s3 = (case aiDebounceTimer s2 of Some t \<Rightarrow> clearTimeout t s2 | None \<Rightarrow> s2);
          s4 = (case aiRequestController s3 of Some r \<Rightarrow> abort r s3 | None \<Rightarrow> s3)
      in case wsService s4 of None \<Rightarrow> s4 | Some i \<Rightarrow> disconnect i s4)"

section \<open>React: rendering the view\<close>

text \<open>
  The view shows the participant count as a child of an element
  (\<^verbatim>\<open><span className="user-count">... {userCount} user(s)</span>\<close>), and the count is
  whatever the last \<^verbatim>\<open>user_joined\<close> or \<^verbatim>\<open>user_left\<close> envelope carried. React renders
  a string or a number, renders nothing for a boolean, \<^verbatim>\<open>null\<close> or \<^verbatim>\<open>undefined\<close>,
  renders the elements of an array, and throws at an object.
\<close>

fun renderable :: "json \<Rightarrow> bool" where
  "renderable (JObj kvs) = False"
| "renderable (JArr xs) = (\<forall>x\<in>set xs. renderable x)"
| "renderable JUndefined = True"
| "renderable JNull = True"
| "renderable (JBool b) = True"
| "renderable (JNum n) = True"
| "renderable (JStr t) = True"

text \<open>
  After a task in which a setter has asked for it, the mounted view renders again. The
  exception of a render is thrown outside every \<^verbatim>\<open>try\<close> of the program, and App.tsx
  has no error boundary: React unmounts the tree, which runs the cleanup of the effect.
  \<open>alive\<close> tells whether the component is still mounted.
\<close>

definition rerender :: "world \<Rightarrow> world \<Rightarrow> world" where
  "rerender s0 s =
     (if alive s \<and> renders s \<noteq> renders s0 \<and> \<not> renderable (userCount s)
      then drain (cleanup (s\<lparr>alive := False\<rparr>))
      else s)"

text \<open>The end of a task that started in \<open>s0\<close>: the rejected promises, then the render.\<close>

definition settle :: "world \<Rightarrow> world \<Rightarrow> world" where
  "settle s0 s = rerender s0 (drain s)"

section \<open>CodeEditor.tsx: the message switch\<close>

text \<open>
  A handler returns the state it reached and the exception it threw, if any: what it did
  before throwing stays done.
\<close>

definition try_prop :: "json \<Rightarrow> string \<Rightarrow> world \<Rightarrow> (json \<Rightarrow> world \<times> exn option) \<Rightarrow> world \<times> exn option" where
  "try_prop j k s f = (case get_prop j k of Inl e \<Rightarrow> (s, Some e) | Inr v \<Rightarrow> f v)"

definition and_then :: "world \<times> exn option \<Rightarrow> (world \<Rightarrow> world \<times> exn option) \<Rightarrow> world \<times> exn option" where
  "and_then r f = (case r of (s, Some e) \<Rightarrow> (s, Some e) | (s, None) \<Rightarrow> f s)"

definition handle_init :: "json \<Rightarrow> world \<Rightarrow> world \<times> exn option" where
  "handle_init message s =
     try_prop message ''data'' s (\<lambda>d. try_prop d ''code'' s (\<lambda>c.
       (let s1 = (setIsReconnecting False (setConnected True (setCode c s)))
                   \<lparr>reconnectTimeout := 1000\<rparr>
        in case editorRef s1 of
             None \<Rightarrow> (s1, None)
           | Some ed \<Rightarrow>
               if c \<noteq> JStr (buffer ed) then
                 and_then (editor_setValue c (s1\<lparr>isRemoteChange := True\<rparr>))
                   (\<lambda>s2. (s2\<lparr>isRemoteChange := False\<rparr>, None))
               else (s1, None))))"

definition handle_code_update :: "json \<Rightarrow> world \<Rightarrow> world \<times> exn option" where
  "handle_code_update message s =
     (let s1 = s\<lparr>isRemoteChange := True\<rparr>
      in try_prop message ''data'' s1 (\<lambda>d. try_prop d ''code'' s1 (\<lambda>c.
           (let s2 = setCode c s1
            in and_then
                 (case editorRef s2 of
                    None \<Rightarrow> (s2, None)
                  | Some ed \<Rightarrow>
                      if c \<noteq> JStr (buffer ed) then editor_setValue c s2 else (s2, None))
                 (\<lambda>s3. (s3\<lparr>isRemoteChange := False\<rparr>, None))))))"

definition handle_cursor_update :: "json \<Rightarrow> world \<Rightarrow> world \<times> exn option" where
  "handle_cursor_update message s =
     try_prop message ''data'' s (\<lambda>d. try_prop d ''user_id'' s (\<lambda>user_id.
       try_prop d ''position'' s (\<lambda>pos. try_prop d ''user_name'' s (\<lambda>user_name.
         if truthy user_id \<and> truthy pos then
           updateRemoteCursor user_id
             (if truthy user_name then user_name else JStr ''Anonymous'') pos s
         else (s, None)))))"

definition handle_user_change :: "json \<Rightarrow> world \<Rightarrow> world \<times> exn option" where
  "handle_user_change message s =
     try_prop message ''data'' s (\<lambda>d. try_prop d ''user_count'' s (\<lambda>user_count.
       (let s1 = setUserCount user_count s
        in try_prop message ''type'' s1 (\<lambda>t. try_prop d ''user_id'' s1 (\<lambda>user_id.
             if t = JStr ''user_left'' \<and> truthy user_id
             then (removeRemoteCursor user_id s1, None)
             else (s1, None))))))"

definition dispatch :: "json \<Rightarrow> world \<Rightarrow> world \<times> exn option" where
  "dispatch message s =
     try_prop message ''type'' s (\<lambda>t.
       if t = JStr ''init'' then handle_init message s
       else if t = JStr ''code_update'' then handle_code_update message s
       else if t = JStr ''cursor_update'' then handle_cursor_update message s
       else if t = JStr ''user_joined'' \<or> t = JStr ''user_left'' then handle_user_change message s
       else (s, None))"

section \<open>The closures stored in a socket\<close>

text \<open>
  The closure that \<^verbatim>\<open>onMessage\<close> stores: \<^verbatim>\<open>JSON.parse\<close> and the callback, inside
  one \<^verbatim>\<open>try\<close>. The event carries what \<^verbatim>\<open>JSON.parse\<close> makes of the frame
  (\<open>None\<close> when it throws a SyntaxError). The second component is the exception that
  leaves the closure.
\<close>

definition parse_then_callback :: "json option \<Rightarrow> world \<Rightarrow> world \<times> exn option" where
  "parse_then_callback frame s =
     (case frame of
        None \<Rightarrow> (console_error ''Error parsing WebSocket message:'' s, None)
      | Some message \<Rightarrow>
          (case dispatch message s of
             (s1, None) \<Rightarrow> (s1, None)
           | (s1, Some e) \<Rightarrow> (console_error ''Error parsing WebSocket message:'' s1, None)))"

definition run_onclose :: "nat \<Rightarrow> world \<Rightarrow> world" where
  "run_onclose k s =
     (case onclose (sockets s ! k) of
        Reconnect \<Rightarrow>
          service_attemptReconnect (owner (sockets s ! k)) (console_log ''WebSocket disconnected'' s)
      | CallbackThenReconnect \<Rightarrow>
          service_attemptReconnect (owner (sockets s ! k)) (close_callback s))"

section \<open>Events, timers and runs\<close>

datatype event =
    Mount
  | EditorMount
  | Unmount
  | SockOpen nat
  | SockError nat
  | SockClose nat
  | SockMessage nat "json option"
  | UserEdit string "(nat \<times> nat) option"
  | UserCursor nat nat
  | ClickSuggest
  | FetchSettle nat outcome

text \<open>
  What one event makes the code do. The browser delivers an open event to a connecting
  socket, a message to an open socket, a close event to a socket that is not closed yet.
  The user can type only when the editor is writable (\<^verbatim>\<open>readOnly: !connected\<close>) and can
  press the suggestion button only when it is enabled
  (\<^verbatim>\<open>disabled={!connected || aiLoading}\<close>); once the view is unmounted there is no
  editor and no button to act on.
\<close>

definition react :: "event \<Rightarrow> world \<Rightarrow> world" where
  "react e s =
     (case e of
        Mount \<Rightarrow> initializeWebSocket s
      | EditorMount \<Rightarrow> if alive s then handleEditorDidMount s else s
      | Unmount \<Rightarrow> if alive s then cleanup (s\<lparr>alive := False\<rparr>) else s
      | SockOpen k \<Rightarrow>
          if k < length (sockets s) \<and> readyState (sockets s ! k) = CONNECTING
          then onopen (owner (sockets s ! k))
                 (s\<lparr>sockets := (sockets s)[k := (sockets s ! k)\<lparr>readyState := OPEN\<rparr>]\<rparr>)
          else s
      | SockError k \<Rightarrow>
          if k < length (sockets s) then console_error ''WebSocket error:'' s else s
      | SockClose k \<Rightarrow>
          if k < length (sockets s) \<and> readyState (sockets s ! k) \<noteq> CLOSED
          then run_onclose k
                 (s\<lparr>sockets := (sockets s)[k := (sockets s ! k)\<lparr>readyState := CLOSED\<rparr>]\<rparr>)
          else s
      | SockMessage k frame \<Rightarrow>
          if k < length (sockets s) \<and> readyState (sockets s ! k) = OPEN
          then (case onmessage (sockets s ! k) of
                  Unset \<Rightarrow> s
                | ParseThenCallback \<Rightarrow> fst (parse_then_callback frame s))
          else s
      | UserEdit t p \<Rightarrow>
          (case editorRef s of
             None \<Rightarrow> s
           | Some ed \<Rightarrow>
               if alive s \<and> connected s
               then onDidChangeModelContent 1 (s\<lparr>editorRef := Some (ed\<lparr>buffer := t, cursor := p\<rparr>)\<rparr>)
               else s)
      | UserCursor line column \<Rightarrow>
          (case editorRef s of
             None \<Rightarrow> s
           | Some ed \<Rightarrow>
               if alive s
               then onDidChangeCursorPosition (line, column)
                      (s\<lparr>editorRef := Some (ed\<lparr>cursor := Some (line, column)\<rparr>)\<rparr>)
               else s)
      | ClickSuggest \<Rightarrow>
          if alive s \<and> connected s \<and> \<not> aiLoading s then requestAutocomplete s else s
      | FetchSettle r out \<Rightarrow>
          if r < length (requests s) \<and> status (requests s ! r) = InFlight
          then fetch_resumed r out s
          else s)"

definition run_callback :: "callback \<Rightarrow> world \<Rightarrow> world" where
  "run_callback cb s =
     (case cb of
        ServiceConnect i \<Rightarrow> connect i s
      | EditorReconnect \<Rightarrow> reconnect_timer s
      | CursorSend line column \<Rightarrow> cursor_timer line column s
      | AiFetch c p \<Rightarrow> fetchAISuggestions c p s)"

text \<open>
  A timer that is still armed fires: it is disarmed, the clock is at its due time, and its
  body is a task of its own.
\<close>

definition fire :: "timer \<Rightarrow> world \<Rightarrow> world" where
  "fire t s =
     (if list_ex (\<lambda>x. tid x = tid t) (timers s)
      then settle s (run_callback (callback t)
                       (s\<lparr>timers := filter (\<lambda>x. tid x \<noteq> tid t) (timers s),
                          now := max (now s) (due t)\<rparr>))
      else s)"

text \<open>
  Time passes until \<open>T\<close>: the timers due by then fire, earliest first, and in the order
  they were armed when due together. No timer body of this program arms a timer, so the
  timers to fire are those armed when time starts to pass.
\<close>

definition advance :: "nat \<Rightarrow> world \<Rightarrow> world" where
  "advance T s =
     (let s1 = fold fire (sort_key due (filter (\<lambda>t. due t \<le> T) (timers s))) s
      in s1\<lparr>now := max (now s1) T\<rparr>)"

definition handle :: "event \<Rightarrow> world \<Rightarrow> world" where
  "handle e s = settle s (react e s)"

text \<open>A run: each event comes with the time at which it happens.\<close>

fun run :: "(nat \<times> event) list \<Rightarrow> world \<Rightarrow> world" where
  "run [] s = s"
| "run ((t, e) # es) s = run es (handle e (advance t s))"

section \<open>A session to run the code on\<close>

text \<open>
  The component mounts, the editor mounts, the socket opens and the server sends
  \<^verbatim>\<open>init\<close>: from then on the view is connected and the editor writable.
\<close>

definition init_message :: "string \<Rightarrow> json" where
  "init_message c =
     JObj [(''type'', JStr ''init''),
           (''data'', JObj [(''code'', JStr c), (''language'', JStr ''python'')])]"

definition code_update_message :: "string \<Rightarrow> json" where
  "code_update_message c =
     JObj [(''type'', JStr ''code_update''), (''data'', JObj [(''code'', JStr c)])]"

definition session :: "(nat \<times> event) list" where
  "session = [(0, Mount), (10, EditorMount), (50, SockOpen 0),
              (60, SockMessage 0 (Some (init_message ''# start'')))]"

definition ready :: world where
  "ready = run session init_world"

text \<open>
  The part of the state through which the component acts on the outside: its sockets and
  services, the armed timers, the suggestion requests and the frames sent.
\<close>

definition wire ::
  "world \<Rightarrow> socket list \<times> service list \<times> nat option \<times> timer list \<times> request list \<times> (nat \<times> json) list" where
  "wire s = (sockets s, services s, wsService s, timers s, requests s, outbox s)"

text \<open>What decides whether the view survives its next render.\<close>

definition shown :: "world \<Rightarrow> bool \<times> json" where
  "shown s = (alive s, userCount s)"

section \<open>Runs used to state the claims\<close>

text \<open>A burst of local cursor moves: each move comes with its time, line and column.\<close>

definition cursor_moves :: "(nat \<times> nat \<times> nat) list \<Rightarrow> (nat \<times> event) list" where
  "cursor_moves ms = map (\<lambda>(t, line, column). (t, UserCursor line column)) ms"

text \<open>
  A timer that leaves the connection of service \<open>i\<close> and the cursor throttle alone: the
  debounce timer of the suggestions, or the reconnect timer of a service older than
  \<open>i\<close>.
\<close>

definition background_timer :: "nat \<Rightarrow> timer \<Rightarrow> bool" where
  "background_timer i x \<longleftrightarrow>
     (case callback x of
        ServiceConnect j \<Rightarrow> j < i
      | EditorReconnect \<Rightarrow> False
      | CursorSend line column \<Rightarrow> False
      | AiFetch c p \<Rightarrow> True)"

text \<open>
  The states of a mounted view whose service \<open>i\<close> holds the open socket \<open>k\<close>, with the
  suppression flag clear: the frames sent so far are \<open>out\<close>.
\<close>

definition linked :: "nat \<Rightarrow> nat \<Rightarrow> (nat \<times> json) list \<Rightarrow> world \<Rightarrow> bool" where
  "linked i k out s \<longleftrightarrow>
     alive s \<and> renderable (userCount s) \<and> editorRef s \<noteq> None \<and> \<not> isRemoteChange s
   \<and> \<not> list_ex (\<lambda>r. status r = Aborted) (requests s)
   \<and> wsService s = Some i \<and> ws (services s ! i) = Some k \<and> k < length (sockets s)
   \<and> readyState (sockets s ! k) = OPEN \<and> outbox s = out"

text \<open>
  Such a state while the cursor throttle is not armed and background timers only are;
  while the throttle is armed with the timer \<open>x\<close>; and after \<open>x\<close> has fired.
\<close>

definition unthrottled :: "nat \<Rightarrow> nat \<Rightarrow> (nat \<times> json) list \<Rightarrow> nat \<Rightarrow> world \<Rightarrow> bool" where
  "unthrottled i k out n s \<longleftrightarrow>
     linked i k out s \<and> cursorUpdateThrottle s = None \<and> next_timer s = n
   \<and> (\<forall>y\<in>set (timers s). tid y < next_timer s \<and> background_timer i y)"

definition throttled :: "timer \<Rightarrow> nat \<Rightarrow> nat \<Rightarrow> (nat \<times> json) list \<Rightarrow> world \<Rightarrow> bool" where
  "throttled x i k out s \<longleftrightarrow>
     linked i k out s \<and> cursorUpdateThrottle s = Some (tid x) \<and> x \<in> set (timers s)
   \<and> (\<forall>y\<in>set (timers s). y = x \<or> (tid y \<noteq> tid x \<and> background_timer i y))"

definition released :: "timer \<Rightarrow> nat \<Rightarrow> nat \<Rightarrow> (nat \<times> json) list \<Rightarrow> world \<Rightarrow> bool" where
  "released x i k out s \<longleftrightarrow>
     linked i k out s \<and> (\<forall>y\<in>set (timers s). tid y \<noteq> tid x \<and> background_timer i y)"

text \<open>The session after one keystroke: the debounce timer of the suggestions is armed.\<close>

definition typed :: world where
  "typed = run [(1000, UserEdit ''a'' (Some (1, 2)))] ready"

text \<open>A burst of local edits: each edit comes with its time, the new text and the cursor.\<close>

definition edits :: "(nat \<times> string \<times> (nat \<times> nat)) list \<Rightarrow> (nat \<times> event) list" where
  "edits es = map (\<lambda>(t, c, q). (t, UserEdit c (Some q))) es"

text \<open>
  Edits that follow an edit made at \<open>t\<close>, each less than 500 ms after the one before
  it, none of them leaving the buffer empty.
\<close>

fun quiet_gaps :: "nat \<Rightarrow> (nat \<times> string \<times> (nat \<times> nat)) list \<Rightarrow> bool" where
  "quiet_gaps t [] = True"
| "quiet_gaps t ((t', c, q) # es) = (t \<le> t' \<and> t' < t + 500 \<and> c \<noteq> [] \<and> quiet_gaps t' es)"

text \<open>
  The states of a mounted, connected view in which the only armed timer is the debounce
  timer, set at the present time for the text \<open>c\<close> and the position \<open>q\<close>, and no request
  is recorded as active.
\<close>

definition debouncing :: "string \<Rightarrow> nat \<times> nat \<Rightarrow> request list \<Rightarrow> world \<Rightarrow> bool" where
  "debouncing c q reqs s \<longleftrightarrow>
     (\<exists>n. timers s = [\<lparr>tid = n, due = now s + 500, callback = AiFetch c q\<rparr>]
          \<and> aiDebounceTimer s = Some n)
   \<and> aiRequestController s = None \<and> editorRef s \<noteq> None \<and> connected s
   \<and> alive s \<and> renderable (userCount s)
   \<and> \<not> isRemoteChange s \<and> requests s = reqs
   \<and> \<not> list_ex (\<lambda>r. status r = Aborted) reqs"

section \<open>Runs of failing connections\<close>

text \<open>The component after its first effect has run.\<close>

definition mounted :: world where
  "mounted = run [(0, Mount)] init_world"

text \<open>The socket of the service that the component holds.\<close>

definition current_socket :: "world \<Rightarrow> nat option" where
  "current_socket s = (case wsService s of None \<Rightarrow> None | Some i \<Rightarrow> ws (services s ! i))"

text \<open>
  One failed attempt of the component to connect: after \<open>d\<close> ms the socket of the
  current service closes, and then the backoff interval passes, so that the component's
  reconnect timer fires. A sequence of failed attempts is given by the times they took.
\<close>

definition fail_attempt :: "nat \<Rightarrow> world \<Rightarrow> world" where
  "fail_attempt d s =
     (let s1 = advance (now s + d) s
      in case current_socket s1 of
           None \<Rightarrow> s1
         | Some k \<Rightarrow>
             (let s2 = handle (SockClose k) s1
              in advance (now s2 + reconnectTimeout s2) s2))"

definition failed_attempts :: "nat list \<Rightarrow> world \<Rightarrow> world" where
  "failed_attempts ds s = fold fail_attempt ds s"

text \<open>
  A timer that is not the component's reconnect timer: the cursor throttle, the debounce
  timer, or the reconnect timer of a service older than \<open>b\<close>.
\<close>

definition other_timer :: "nat \<Rightarrow> timer \<Rightarrow> bool" where
  "other_timer b x \<longleftrightarrow>
     (case callback x of
        ServiceConnect j \<Rightarrow> j < b
      | EditorReconnect \<Rightarrow> False
      | CursorSend line column \<Rightarrow> True
      | AiFetch c p \<Rightarrow> True)"

text \<open>
  The states in which the mounted component waits on a connection: the socket of its
  current service is not closed and carries the closures installed by \<^verbatim>\<open>onMessage\<close>
  and \<^verbatim>\<open>onClose\<close>, the component's reconnect timer is not armed, and the armed timers
  are other timers, of older services.
\<close>

definition awaiting :: "world \<Rightarrow> bool" where
  "awaiting s \<longleftrightarrow>
     (case wsService s of
        None \<Rightarrow> False
      | Some i \<Rightarrow>
          i < length (services s)
        \<and> (case ws (services s ! i) of
              None \<Rightarrow> False
            | Some k \<Rightarrow>
                k < length (sockets s) \<and> owner (sockets s ! k) = i
              \<and> onmessage (sockets s ! k) = ParseThenCallback
              \<and> onclose (sockets s ! k) = CallbackThenReconnect
              \<and> readyState (sockets s ! k) \<noteq> CLOSED)
        \<and> list_all (\<lambda>x. tid x < next_timer s \<and> other_timer i x) (timers s))
   \<and> reconnectTimer s = None
   \<and> alive s \<and> renderable (userCount s)
   \<and> \<not> list_ex (\<lambda>r. status r = Aborted) (requests s)"

text \<open>
  The states between a failure and the reconnect: the reconnect timer \<open>e\<close> is armed, with
  the backoff interval \<open>r\<close>. And the states after \<open>e\<close> has fired, with the next interval.
\<close>

definition pending :: "nat \<Rightarrow> timer \<Rightarrow> nat \<Rightarrow> world \<Rightarrow> bool" where
  "pending i e r s \<longleftrightarrow>
     wsService s = Some i \<and> i < length (services s) \<and> reconnectTimer s = Some (tid e)
   \<and> reconnectTimeout s = r \<and> callback e = EditorReconnect \<and> e \<in> set (timers s)
   \<and> (\<forall>x\<in>set (timers s). tid x < next_timer s
          \<and> (x = e \<or> (tid x \<noteq> tid e \<and> other_timer (Suc i) x)))
   \<and> alive s \<and> renderable (userCount s)
   \<and> \<not> list_ex (\<lambda>r. status r = Aborted) (requests s)"

definition resumed :: "nat \<Rightarrow> timer \<Rightarrow> nat \<Rightarrow> world \<Rightarrow> bool" where
  "resumed i e r s \<longleftrightarrow>
     awaiting s \<and> (\<exists>i'. wsService s = Some i' \<and> i < i')
   \<and> (\<forall>x\<in>set (timers s). tid x \<noteq> tid e) \<and> reconnectTimeout s = r"

text \<open>
  The component mounts while the server is down: the sockets 0 and 1 of its services 0
  and 1 close, and at 3020 the component opens socket 3 with its service 2, the backoff
  interval at 4000 ms. Then the server comes back, in one of two ways. Either socket 3
  opens and the server sends \<^verbatim>\<open>init\<close> on it. Or socket 3 closes as well, and the
  reconnect of service 2, due after 2000 ms, comes before that of the component, due
  after 4000 ms: at 5030 service 2 opens socket 5, the socket opens and the server sends
  \<^verbatim>\<open>init\<close> on it.
\<close>

definition outage :: "(nat \<times> event) list" where
  "outage = [(0, Mount), (10, SockClose 0), (1020, SockClose 1)]"

definition direct_recovery :: "(nat \<times> event) list" where
  "direct_recovery =
     [(3030, SockOpen 3), (3040, SockMessage 3 (Some (init_message ''# start'')))]"

definition service_recovery :: "(nat \<times> event) list" where
  "service_recovery =
     [(3030, SockClose 3), (5040, SockOpen 5),
      (5050, SockMessage 5 (Some (init_message ''# start'')))]"

section \<open>The session, evaluated\<close>

text \<open>The definitions of the model, to run it on a given input.\<close>

lemmas model_defs = init_world_def console_log_def console_warn_def console_error_def
  setTimeout_def clearTimeout_def ws_close_def abort_def setCode_def setConnected_def
  setUserCount_def setIsReconnecting_def setAiLoading_def connect_def new_WebSocketService_def
  onopen_def service_attemptReconnect_def onMessage_def onClose_def send_def sendCodeUpdate_def
  disconnect_def USER_COLORS_def getUserColor_def deltaDecorations_def updateRemoteCursor_def
  removeRemoteCursor_def fetchAISuggestions_def fetch_finally_def fetch_resumed_def drain_def
  triggerAIAutocomplete_def requestAutocomplete_def sendCursorUpdate_def cursor_envelope_def
  cursor_timer_def onDidChangeCursorPosition_def onDidChangeModelContent_def
  handleEditorDidMount_def editor_setValue_def attemptReconnect_def initializeWebSocket_def
  reconnect_timer_def close_callback_def cleanup_def rerender_def settle_def try_prop_def
  and_then_def handle_init_def handle_code_update_def handle_cursor_update_def
  handle_user_change_def dispatch_def parse_then_callback_def run_onclose_def react_def
  run_callback_def fire_def advance_def handle_def maxReconnectAttempts_def reconnectDelay_def
  current_socket_def init_message_def code_update_message_def cursor_moves_def edits_def
  Let_def

lemma ready_state:
  "ready = \<lparr>now = 60, timers = [], next_timer = 1,
    services = [\<lparr>ws = Some 0, reconnectAttempts = 0\<rparr>],
    sockets = [\<lparr>owner = 0, readyState = OPEN, onmessage = ParseThenCallback,
                onclose = CallbackThenReconnect\<rparr>],
    requests = [], outbox = [],
    console = [Info ''Connecting to WebSocket:'', Info ''WebSocket connected''],
    code = JStr ''# start'', connected = True, userCount = JNum 1,
    isReconnecting = False, aiLoading = False, renders = 2, alive = True,
    editorRef = Some \<lparr>buffer = ''# start'', cursor = Some (1, 1), decorations = [],
                       next_decoration = 0, writes = 1\<rparr>,
    wsService = Some 0, remoteUsers = [], isRemoteChange = False,
    reconnectTimeout = 1000, reconnectTimer = None,
    cursorUpdateThrottle = None, aiRequestController = None,
    aiDebounceTimer = None\<rparr>"
  by (simp add: ready_def session_def model_defs)

section \<open>Remote writes under the suppression flag\<close>

text \<open>While the flag is set, \<^verbatim>\<open>setValue\<close> writes the buffer and the listeners do nothing.\<close>

lemma setValue_suppressed:
  "isRemoteChange s \<Longrightarrow> editorRef s = Some ed \<Longrightarrow>
   editor_setValue (JStr t) s =
     (s\<lparr>editorRef := Some (ed\<lparr>buffer := t, cursor := Some (1, 1), decorations := [],
                              writes := Suc (writes ed)\<rparr>)\<rparr>, None)"
  by (simp add: editor_setValue_def onDidChangeCursorPosition_def onDidChangeModelContent_def)

lemma wire_setters [simp]:
  "wire (setCode c s) = wire s"
  "wire (setConnected b s) = wire s"
  "wire (setIsReconnecting b s) = wire s"
  "wire (setUserCount c s) = wire s"
  "wire (setAiLoading b s) = wire s"
  "wire (console_log msg s) = wire s"
  "wire (console_warn msg s) = wire s"
  "wire (console_error msg s) = wire s"
  by (simp_all add: wire_def setCode_def setConnected_def setIsReconnecting_def setUserCount_def
      setAiLoading_def console_log_def console_warn_def console_error_def)

lemma setValue_flag_wire:
  assumes "isRemoteChange s"
  shows "wire (fst (editor_setValue v s)) = wire s"
proof (cases "editorRef s")
  case None
  then show ?thesis by (simp add: editor_setValue_def)
next
  case (Some ed)
  show ?thesis
  proof (cases v)
    case (JStr t)
    then show ?thesis using assms Some by (simp add: setValue_suppressed wire_def)
  qed (use Some in \<open>simp_all add: editor_setValue_def\<close>)
qed

lemma setValue_flag_kept:
  assumes "isRemoteChange s"
  shows "isRemoteChange (fst (editor_setValue v s))"
proof (cases "editorRef s")
  case None
  then show ?thesis using assms by (simp add: editor_setValue_def)
next
  case (Some ed)
  show ?thesis
  proof (cases v)
    case (JStr t)
    then show ?thesis using assms Some by (simp add: setValue_suppressed)
  qed (use assms Some in \<open>simp_all add: editor_setValue_def\<close>)
qed

lemma and_then_clear_wire:
  "wire (fst (and_then r (\<lambda>s2. (s2\<lparr>isRemoteChange := False\<rparr>, None)))) = wire (fst r)"
  by (cases r; cases "snd r") (simp_all add: and_then_def wire_def)

lemma and_then_clear_flag:
  "snd (and_then r (\<lambda>s2. (s2\<lparr>isRemoteChange := False\<rparr>, None))) = None \<Longrightarrow>
   \<not> isRemoteChange (fst (and_then r (\<lambda>s2. (s2\<lparr>isRemoteChange := False\<rparr>, None))))"
  by (cases r; cases "snd r") (simp_all add: and_then_def)

text \<open>The two remote writes, once the payload has been read.\<close>

lemma handle_init_payload:
  assumes "get_prop m ''data'' = Inr d" and "get_prop d ''code'' = Inr c"
  shows "handle_init m s =
    (case editorRef s of
       None \<Rightarrow>
         ((setIsReconnecting False (setConnected True (setCode c s)))\<lparr>reconnectTimeout := 1000\<rparr>, None)
     | Some ed \<Rightarrow>
         if c \<noteq> JStr (buffer ed) then
           and_then (editor_setValue c
                       ((setIsReconnecting False (setConnected True (setCode c s)))
                          \<lparr>reconnectTimeout := 1000, isRemoteChange := True\<rparr>))
             (\<lambda>s2. (s2\<lparr>isRemoteChange := False\<rparr>, None))
         else
           ((setIsReconnecting False (setConnected True (setCode c s)))\<lparr>reconnectTimeout := 1000\<rparr>,
            None))"
proof -
  have "editorRef (setIsReconnecting False (setConnected True (setCode c s))) = editorRef s"
    by (simp add: setIsReconnecting_def setConnected_def setCode_def)
  then show ?thesis
    using assms by (simp add: handle_init_def try_prop_def Let_def)
qed

lemma handle_code_update_payload:
  assumes "get_prop m ''data'' = Inr d" and "get_prop d ''code'' = Inr c"
  shows "handle_code_update m s =
    and_then (case editorRef s of
                None \<Rightarrow> (setCode c (s\<lparr>isRemoteChange := True\<rparr>), None)
              | Some ed \<Rightarrow>
                  if c \<noteq> JStr (buffer ed)
                  then editor_setValue c (setCode c (s\<lparr>isRemoteChange := True\<rparr>))
                  else (setCode c (s\<lparr>isRemoteChange := True\<rparr>), None))
             (\<lambda>s3. (s3\<lparr>isRemoteChange := False\<rparr>, None))"
proof -
  have "editorRef (setCode c (s\<lparr>isRemoteChange := True\<rparr>)) = editorRef s"
    by (simp add: setCode_def)
  then show ?thesis
    using assms by (simp add: handle_code_update_def try_prop_def Let_def)
qed

lemma handle_init_wire: "wire (fst (handle_init m s)) = wire s"
proof (cases "get_prop m ''data''")
  case (Inl e)
  then show ?thesis by (simp add: handle_init_def try_prop_def)
next
  case d: (Inr d)
  show ?thesis
  proof (cases "get_prop d ''code''")
    case (Inl e)
    then show ?thesis using d by (simp add: handle_init_def try_prop_def)
  next
    case c: (Inr c)
    have v: "wire ((setIsReconnecting False (setConnected True (setCode x s)))
                     \<lparr>reconnectTimeout := 1000\<rparr>) = wire s" for x
      by (simp add: wire_def setIsReconnecting_def setConnected_def setCode_def)
    have "wire (fst (editor_setValue c
                  ((setIsReconnecting False (setConnected True (setCode c s)))
                     \<lparr>reconnectTimeout := 1000, isRemoteChange := True\<rparr>)))
            = wire ((setIsReconnecting False (setConnected True (setCode c s)))
                     \<lparr>reconnectTimeout := 1000, isRemoteChange := True\<rparr>)"
      by (rule setValue_flag_wire) simp
    also have "\<dots> = wire s"
      by (simp add: wire_def setIsReconnecting_def setConnected_def setCode_def)
    finally show ?thesis
      unfolding handle_init_payload [OF d c]
      by (simp add: and_then_clear_wire v split: option.splits)
  qed
qed

lemma handle_code_update_wire: "wire (fst (handle_code_update m s)) = wire s"
proof (cases "get_prop m ''data''")
  case (Inl e)
  then show ?thesis by (simp add: handle_code_update_def try_prop_def wire_def)
next
  case d: (Inr d)
  show ?thesis
  proof (cases "get_prop d ''code''")
    case (Inl e)
    then show ?thesis using d by (simp add: handle_code_update_def try_prop_def wire_def)
  next
    case c: (Inr c)
    define s2 where "s2 = setCode c (s\<lparr>isRemoteChange := True\<rparr>)"
    have s2: "wire s2 = wire s" "isRemoteChange s2"
      by (simp_all add: s2_def setCode_def wire_def)
    show ?thesis
      unfolding handle_code_update_payload [OF d c] using s2 setValue_flag_wire [of s2 c]
      by (simp add: and_then_clear_wire s2_def split: option.splits)
  qed
qed

lemma updateRemoteCursor_wire: "wire (fst (updateRemoteCursor u n p s)) = wire s"
  by (simp add: updateRemoteCursor_def wire_def Let_def
      split: option.splits json.splits sum.splits prod.splits)

lemma removeRemoteCursor_wire: "wire (removeRemoteCursor u s) = wire s"
  by (simp add: removeRemoteCursor_def wire_def split: option.splits json.splits)

lemma handle_cursor_update_wire: "wire (fst (handle_cursor_update m s)) = wire s"
  by (simp add: handle_cursor_update_def try_prop_def updateRemoteCursor_wire split: sum.splits)

lemma handle_user_change_wire: "wire (fst (handle_user_change m s)) = wire s"
  by (simp add: handle_user_change_def try_prop_def removeRemoteCursor_wire Let_def
      split: sum.splits)

lemma dispatch_wire: "wire (fst (dispatch m s)) = wire s"
  by (simp add: dispatch_def try_prop_def handle_init_wire handle_code_update_wire
      handle_cursor_update_wire handle_user_change_wire split: sum.splits)

lemma drain_wire:
  "sockets (drain s) = sockets s" "services (drain s) = services s"
  "wsService (drain s) = wsService s" "timers (drain s) = timers s"
  "outbox (drain s) = outbox s" "console (drain s) = console s"
  by (simp_all add: drain_def fetch_finally_def setAiLoading_def)

lemma drain_idle: "\<not> list_ex (\<lambda>r. status r = Aborted) (requests s) \<Longrightarrow> drain s = s"
  by (simp add: drain_def)

lemma drain_shown: "shown (drain s) = shown s"
  by (simp add: drain_def fetch_finally_def setAiLoading_def shown_def)

text \<open>A render of a count that React can render changes nothing.\<close>

lemma settle_rendered: "renderable (userCount s) \<Longrightarrow> settle s0 s = drain s"
  using drain_shown [of s] by (simp add: settle_def rerender_def shown_def)

lemma settle_idle:
  assumes "\<not> list_ex (\<lambda>r. status r = Aborted) (requests s)" and "renderable (userCount s)"
  shows "settle s0 s = s"
  using assms by (simp add: settle_rendered drain_idle)

text \<open>Only \<^verbatim>\<open>user_joined\<close> and \<^verbatim>\<open>user_left\<close> touch the participant count.\<close>

lemma setValue_flag_shown:
  assumes "isRemoteChange s"
  shows "shown (fst (editor_setValue v s)) = shown s"
proof (cases "editorRef s")
  case None
  then show ?thesis by (simp add: editor_setValue_def)
next
  case (Some ed)
  show ?thesis
  proof (cases v)
    case (JStr t)
    then show ?thesis using assms Some by (simp add: setValue_suppressed shown_def)
  qed (use Some in \<open>simp_all add: editor_setValue_def\<close>)
qed

lemma and_then_clear_shown:
  "shown (fst (and_then r (\<lambda>s2. (s2\<lparr>isRemoteChange := False\<rparr>, None)))) = shown (fst r)"
  by (cases r; cases "snd r") (simp_all add: and_then_def shown_def)

lemma handle_init_shown: "shown (fst (handle_init m s)) = shown s"
proof (cases "get_prop m ''data''")
  case (Inl e)
  then show ?thesis by (simp add: handle_init_def try_prop_def)
next
  case d: (Inr d)
  show ?thesis
  proof (cases "get_prop d ''code''")
    case (Inl e)
    then show ?thesis using d by (simp add: handle_init_def try_prop_def)
  next
    case c: (Inr c)
    have v: "shown ((setIsReconnecting False (setConnected True (setCode x s)))
                     \<lparr>reconnectTimeout := 1000\<rparr>) = shown s" for x
      by (simp add: shown_def setIsReconnecting_def setConnected_def setCode_def)
    have "shown (fst (editor_setValue c
                  ((setIsReconnecting False (setConnected True (setCode c s)))
                     \<lparr>reconnectTimeout := 1000, isRemoteChange := True\<rparr>)))
            = shown ((setIsReconnecting False (setConnected True (setCode c s)))
                     \<lparr>reconnectTimeout := 1000, isRemoteChange := True\<rparr>)"
      by (rule setValue_flag_shown) simp
    also have "\<dots> = shown s"
      by (simp add: shown_def setIsReconnecting_def setConnected_def setCode_def)
    finally show ?thesis
      unfolding handle_init_payload [OF d c]
      by (simp add: and_then_clear_shown v split: option.splits)
  qed
qed

lemma handle_code_update_shown: "shown (fst (handle_code_update m s)) = shown s"
proof (cases "get_prop m ''data''")
  case (Inl e)
  then show ?thesis by (simp add: handle_code_update_def try_prop_def shown_def)
next
  case d: (Inr d)
  show ?thesis
  proof (cases "get_prop d ''code''")
    case (Inl e)
    then show ?thesis using d by (simp add: handle_code_update_def try_prop_def shown_def)
  next
    case c: (Inr c)
    define s2 where "s2 = setCode c (s\<lparr>isRemoteChange := True\<rparr>)"
    have s2: "shown s2 = shown s" "isRemoteChange s2"
      by (simp_all add: s2_def setCode_def shown_def)
    have g: "shown (setCode x (s\<lparr>isRemoteChange := True\<rparr>)) = shown s" for x
      by (simp add: setCode_def shown_def)
    show ?thesis
      unfolding handle_code_update_payload [OF d c] using s2 setValue_flag_shown [of s2 c]
      by (simp add: and_then_clear_shown s2_def g split: option.splits)
  qed
qed

lemma handle_cursor_update_shown: "shown (fst (handle_cursor_update m s)) = shown s"
  by (simp add: handle_cursor_update_def try_prop_def updateRemoteCursor_def shown_def Let_def
      split: option.splits json.splits sum.splits prod.splits)

lemma handle_user_change_alive: "alive (fst (handle_user_change m s)) = alive s"
  by (simp add: handle_user_change_def try_prop_def removeRemoteCursor_def setUserCount_def Let_def
      split: option.splits json.splits sum.splits)

lemma dispatch_alive: "alive (fst (dispatch m s)) = alive s"
  using handle_init_shown [of m s] handle_code_update_shown [of m s]
    handle_cursor_update_shown [of m s] handle_user_change_alive [of m s]
  by (simp add: dispatch_def try_prop_def shown_def split: sum.splits)

lemma dispatch_userCount:
  assumes "get_prop m ''type'' \<noteq> Inr (JStr ''user_joined'')"
      and "get_prop m ''type'' \<noteq> Inr (JStr ''user_left'')"
  shows "userCount (fst (dispatch m s)) = userCount s"
  using assms handle_init_shown [of m s] handle_code_update_shown [of m s]
    handle_cursor_update_shown [of m s]
  by (simp add: dispatch_def try_prop_def shown_def split: sum.splits)

section \<open>An inbound \<^verbatim>\<open>code_update\<close> that carries the buffer's own text\<close>

text \<open>
  Claim C9. Applying an inbound \<^verbatim>\<open>code_update\<close> whose payload text equals the current
  text of the editor's buffer is a no-op: the handler ends in the state it started from,
  but for the suppression flag (cleared) and the React state \<open>code\<close> (set to the
  payload). So the editor is not written (its buffer, its write count and its decorations
  are the same), the remote users and their decoration handles are the same, and a
  re-render is asked for only if the displayed \<open>code\<close> was not yet that text.
\<close>

theorem code_update_equal_to_buffer_is_noop:
  assumes "get_prop message ''type'' = Inr (JStr ''code_update'')"
      and "get_prop message ''data'' = Inr d"
      and "get_prop d ''code'' = Inr (JStr t)"
      and "editorRef s = Some ed"
      and "buffer ed = t"
  shows "dispatch message s =
           (s\<lparr>isRemoteChange := False, code := JStr t,
              renders := (if code s = JStr t then renders s else Suc (renders s))\<rparr>, None)
       \<and> editorRef (fst (dispatch message s)) = editorRef s
       \<and> remoteUsers (fst (dispatch message s)) = remoteUsers s
       \<and> (code s = JStr t \<longrightarrow> renders (fst (dispatch message s)) = renders s)"
  using assms
  by (simp add: dispatch_def handle_code_update_def try_prop_def and_then_def setCode_def)

theorem code_update_equal_to_buffer_is_noop_witness:
  "get_prop (code_update_message ''# start'') ''type'' = Inr (JStr ''code_update'')
 \<and> get_prop (code_update_message ''# start'') ''data'' = Inr (JObj [(''code'', JStr ''# start'')])
 \<and> get_prop (JObj [(''code'', JStr ''# start'')]) ''code'' = Inr (JStr ''# start'')
 \<and> editorRef ready = Some \<lparr>buffer = ''# start'', cursor = Some (1, 1), decorations = [],
                             next_decoration = 0, writes = 1\<rparr>
 \<and> fst (dispatch (code_update_message ''# start'') ready) = ready"
proof -
  have h1: "get_prop (code_update_message ''# start'') ''type'' = Inr (JStr ''code_update'')"
    by (simp add: code_update_message_def)
  have h2: "get_prop (code_update_message ''# start'') ''data''
              = Inr (JObj [(''code'', JStr ''# start'')])"
    by (simp add: code_update_message_def)
  have h3: "get_prop (JObj [(''code'', JStr ''# start'')]) ''code'' = Inr (JStr ''# start'')"
    by simp
  have h4: "editorRef ready = Some \<lparr>buffer = ''# start'', cursor = Some (1, 1),
                                     decorations = [], next_decoration = 0, writes = 1\<rparr>"
    by (simp add: ready_state)
  from code_update_equal_to_buffer_is_noop [OF h1 h2 h3 h4]
  have "fst (dispatch (code_update_message ''# start'') ready) = ready"
    by (simp add: ready_state)
  with h1 h2 h3 h4 show ?thesis by simp
qed

section \<open>The socket that the service opens when it reconnects by itself\<close>

text \<open>
  Claim C10. When a WebSocketService reconnects by itself (the timer armed by its
  \<^verbatim>\<open>attemptReconnect\<close> calls \<^verbatim>\<open>connect\<close>), the replacement socket becomes the
  service's socket with no message handler: whatever was registered with
  \<^verbatim>\<open>onMessage\<close> before stays on the old socket. Once the replacement socket is open,
  an inbound frame changes nothing at all (no callback, no log line). Only a new call of
  \<^verbatim>\<open>onMessage\<close> attaches a handler to it.
\<close>

theorem replacement_socket_has_no_message_handler:
  assumes "i < length (services s)"
  shows "(reconnectAttempts (services s ! i) < maxReconnectAttempts \<longrightarrow>
            timers (service_attemptReconnect i s) =
              timers s @ [\<lparr>tid = next_timer s, due = now s + reconnectDelay,
                           callback = ServiceConnect i\<rparr>])
       \<and> ws (services (run_callback (ServiceConnect i) s) ! i) = Some (length (sockets s))
       \<and> onmessage (sockets (run_callback (ServiceConnect i) s) ! length (sockets s)) = Unset
       \<and> react (SockMessage (length (sockets s)) frame)
            (react (SockOpen (length (sockets s))) (run_callback (ServiceConnect i) s))
           = react (SockOpen (length (sockets s))) (run_callback (ServiceConnect i) s)
       \<and> onmessage (sockets (onMessage i (run_callback (ServiceConnect i) s)) ! length (sockets s))
           = ParseThenCallback"
  using assms
  by (simp add: service_attemptReconnect_def setTimeout_def console_log_def run_callback_def
      connect_def react_def onopen_def onMessage_def Let_def nth_append)

theorem replacement_socket_has_no_message_handler_witness:
  "0 < length (services ready)
 \<and> ws (services (run_callback (ServiceConnect 0) ready) ! 0) = Some 1
 \<and> onmessage (sockets (run_callback (ServiceConnect 0) ready) ! 1) = Unset
 \<and> react (SockMessage 1 (Some (init_message ''# start'')))
      (react (SockOpen 1) (run_callback (ServiceConnect 0) ready))
     = react (SockOpen 1) (run_callback (ServiceConnect 0) ready)"
proof -
  have h: "0 < length (services ready)" by (simp add: ready_state)
  have l: "length (sockets ready) = 1" by (simp add: ready_state)
  from replacement_socket_has_no_message_handler [OF h, of "Some (init_message ''# start'')"]
  show ?thesis using h unfolding l by simp
qed

section \<open>Inbound frames: what a malformed or unknown envelope can do\<close>

lemma parse_then_callback_wire: "wire (fst (parse_then_callback frame s)) = wire s"
proof (cases frame)
  case None
  then show ?thesis by (simp add: parse_then_callback_def)
next
  case (Some m)
  have "wire (fst (dispatch m s)) = wire s" by (rule dispatch_wire)
  then show ?thesis
    using Some by (cases "dispatch m s"; cases "snd (dispatch m s)")
      (simp_all add: parse_then_callback_def)
qed

lemma react_sockmessage_wire: "wire (react (SockMessage k frame) s) = wire s"
  by (simp add: react_def parse_then_callback_wire split: on_message.splits)

lemma parse_then_callback_shown:
  "alive (fst (parse_then_callback frame s)) = alive s"
  "userCount (fst (parse_then_callback None s)) = userCount s"
  "userCount (fst (parse_then_callback (Some m) s)) = userCount (fst (dispatch m s))"
proof -
  show "alive (fst (parse_then_callback frame s)) = alive s"
  proof (cases frame)
    case None
    then show ?thesis by (simp add: parse_then_callback_def console_error_def)
  next
    case (Some m)
    then show ?thesis
      using dispatch_alive [of m s]
      by (cases "dispatch m s"; cases "snd (dispatch m s)")
        (simp_all add: parse_then_callback_def console_error_def)
  qed
  show "userCount (fst (parse_then_callback None s)) = userCount s"
    by (simp add: parse_then_callback_def console_error_def)
  show "userCount (fst (parse_then_callback (Some m) s)) = userCount (fst (dispatch m s))"
    by (cases "dispatch m s"; cases "snd (dispatch m s)")
      (simp_all add: parse_then_callback_def console_error_def)
qed

lemma react_sockmessage_alive: "alive (react (SockMessage k frame) s) = alive s"
  by (simp add: react_def parse_then_callback_shown split: on_message.splits)

text \<open>
  Claim C8, as amended. Whatever frame arrives (text that does not parse, an envelope that
  misses payload fields, an unknown type tag), no exception leaves the message handler.
  Provided the participant count that the view holds afterwards is one that React can
  render, handling the frame changes neither the sockets nor the services nor the armed
  timers, and the view stays mounted: no teardown, no reconnect; and every frame but a
  \<^verbatim>\<open>user_joined\<close> or a \<^verbatim>\<open>user_left\<close> leaves the count as it was. A frame that does
  not parse is logged with \<^verbatim>\<open>console.error\<close> and changes nothing else; an envelope
  whose handling throws is logged the same way, after what its handler had done; an
  envelope with a type tag the switch does not know is ignored without any diagnostic,
  the state unchanged.
\<close>

theorem inbound_frame_is_contained:
  "snd (parse_then_callback frame s) = None
 \<and> (renderable (userCount (react (SockMessage k frame) s)) \<longrightarrow>
      sockets (handle (SockMessage k frame) s) = sockets s
    \<and> services (handle (SockMessage k frame) s) = services s
    \<and> wsService (handle (SockMessage k frame) s) = wsService s
    \<and> timers (handle (SockMessage k frame) s) = timers s
    \<and> alive (handle (SockMessage k frame) s) = alive s)
 \<and> userCount (react (SockMessage k None) s) = userCount s
 \<and> (get_prop message ''type'' \<noteq> Inr (JStr ''user_joined'')
      \<and> get_prop message ''type'' \<noteq> Inr (JStr ''user_left'') \<longrightarrow>
      userCount (react (SockMessage k (Some message)) s) = userCount s)
 \<and> parse_then_callback None s = (console_error ''Error parsing WebSocket message:'' s, None)
 \<and> (snd (dispatch message s) \<noteq> None \<longrightarrow>
      fst (parse_then_callback (Some message) s)
        = console_error ''Error parsing WebSocket message:'' (fst (dispatch message s)))
 \<and> (get_prop other ''type'' = Inr t \<and> t \<noteq> JStr ''init'' \<and> t \<noteq> JStr ''code_update''
      \<and> t \<noteq> JStr ''cursor_update'' \<and> t \<noteq> JStr ''user_joined'' \<and> t \<noteq> JStr ''user_left'' \<longrightarrow>
      parse_then_callback (Some other) s = (s, None))"
proof -
  let ?r = "react (SockMessage k frame) s"
  have a: "snd (parse_then_callback frame s) = None"
    by (cases frame) (simp_all add: parse_then_callback_def split: prod.splits option.splits)
  have w: "wire ?r = wire s"
    by (rule react_sockmessage_wire)
  have b: "sockets (handle (SockMessage k frame) s) = sockets s
    \<and> services (handle (SockMessage k frame) s) = services s
    \<and> wsService (handle (SockMessage k frame) s) = wsService s
    \<and> timers (handle (SockMessage k frame) s) = timers s
    \<and> alive (handle (SockMessage k frame) s) = alive s"
    if "renderable (userCount ?r)"
  proof -
    have h: "handle (SockMessage k frame) s = drain ?r"
      unfolding handle_def using that by (rule settle_rendered)
    have "alive (drain ?r) = alive s"
      using drain_shown [of ?r] react_sockmessage_alive [of k frame s] by (simp add: shown_def)
    then show ?thesis
      using w by (simp add: h drain_wire wire_def)
  qed
  have u: "userCount (react (SockMessage k None) s) = userCount s"
    by (simp add: react_def parse_then_callback_shown split: on_message.splits)
  have v: "userCount (react (SockMessage k (Some message)) s) = userCount s"
    if "get_prop message ''type'' \<noteq> Inr (JStr ''user_joined'')"
      and "get_prop message ''type'' \<noteq> Inr (JStr ''user_left'')"
    using dispatch_userCount [OF that, of s]
    by (simp add: react_def parse_then_callback_shown split: on_message.splits)
  have c: "parse_then_callback None s = (console_error ''Error parsing WebSocket message:'' s, None)"
    by (simp add: parse_then_callback_def)
  have d: "snd (dispatch message s) \<noteq> None \<longrightarrow>
      fst (parse_then_callback (Some message) s)
        = console_error ''Error parsing WebSocket message:'' (fst (dispatch message s))"
    by (cases "dispatch message s") (auto simp: parse_then_callback_def)
  have e: "get_prop other ''type'' = Inr t \<and> t \<noteq> JStr ''init'' \<and> t \<noteq> JStr ''code_update''
      \<and> t \<noteq> JStr ''cursor_update'' \<and> t \<noteq> JStr ''user_joined'' \<and> t \<noteq> JStr ''user_left'' \<longrightarrow>
      parse_then_callback (Some other) s = (s, None)"
    by (simp add: parse_then_callback_def dispatch_def try_prop_def)
  from a b u v c d e show ?thesis by blast
qed

theorem inbound_frame_is_contained_witness:
  "renderable (userCount (react (SockMessage 0 None) ready))
 \<and> sockets (handle (SockMessage 0 None) ready) = sockets ready
 \<and> timers (handle (SockMessage 0 None) ready) = timers ready
 \<and> alive (handle (SockMessage 0 None) ready)
 \<and> get_prop (JObj [(''type'', JStr ''code_update'')]) ''type'' \<noteq> Inr (JStr ''user_joined'')
 \<and> get_prop (JObj [(''type'', JStr ''code_update'')]) ''type'' \<noteq> Inr (JStr ''user_left'')
 \<and> userCount (react (SockMessage 0 (Some (JObj [(''type'', JStr ''code_update'')]))) ready) = JNum 1
 \<and> snd (dispatch (JObj [(''type'', JStr ''code_update'')]) ready) \<noteq> None
 \<and> fst (parse_then_callback (Some (JObj [(''type'', JStr ''code_update'')])) ready)
     = console_error ''Error parsing WebSocket message:''
         (fst (dispatch (JObj [(''type'', JStr ''code_update'')]) ready))
 \<and> get_prop (JObj [(''type'', JStr ''ping'')]) ''type'' = Inr (JStr ''ping'')
 \<and> parse_then_callback (Some (JObj [(''type'', JStr ''ping'')])) ready = (ready, None)"
proof -
  have h0: "renderable (userCount (react (SockMessage 0 None) ready))"
    by (simp add: ready_state react_def parse_then_callback_def console_error_def)
  have h1: "snd (dispatch (JObj [(''type'', JStr ''code_update'')]) ready) \<noteq> None"
    by (simp add: dispatch_def try_prop_def handle_code_update_def)
  have h2: "get_prop (JObj [(''type'', JStr ''ping'')]) ''type'' = Inr (JStr ''ping'')"
    by simp
  have h3: "get_prop (JObj [(''type'', JStr ''code_update'')]) ''type'' \<noteq> Inr (JStr ''user_joined'')"
    "get_prop (JObj [(''type'', JStr ''code_update'')]) ''type'' \<noteq> Inr (JStr ''user_left'')"
    by simp_all
  have r: "userCount ready = JNum 1" "alive ready" by (simp_all add: ready_state)
  from inbound_frame_is_contained
    [of None ready 0 "JObj [(''type'', JStr ''code_update'')]"
       "JObj [(''type'', JStr ''ping'')]" "JStr ''ping''"]
  show ?thesis using h0 h1 h2 h3 r by simp
qed

text \<open>
  Against C8 as it was stated: an envelope with an unknown type tag leaves no line in the
  console; a \<^verbatim>\<open>user_joined\<close> without its count is not dropped, it sets the count to
  \<^verbatim>\<open>undefined\<close>; and a \<^verbatim>\<open>user_joined\<close> whose count is an object is stored as it
  comes, the next render throws, the view is unmounted and its cleanup closes the socket.
\<close>

theorem unknown_type_is_silent_and_unrenderable_count_unmounts:
  "console (handle (SockMessage 0 (Some (JObj [(''type'', JStr ''ping'')]))) ready) = console ready
 \<and> userCount (handle (SockMessage 0
      (Some (JObj [(''type'', JStr ''user_joined''), (''data'', JObj [])]))) ready) = JUndefined
 \<and> alive ready \<and> map readyState (sockets ready) = [OPEN]
 \<and> \<not> alive (handle (SockMessage 0
      (Some (JObj [(''type'', JStr ''user_joined''),
                   (''data'', JObj [(''user_count'', JObj [])])]))) ready)
 \<and> map readyState (sockets (handle (SockMessage 0
      (Some (JObj [(''type'', JStr ''user_joined''),
                   (''data'', JObj [(''user_count'', JObj [])])]))) ready)) = [CLOSING]"
  by (simp add: ready_state model_defs)

section \<open>The suppression flag around a remote write\<close>

text \<open>Without the flag the same change of the buffer is sent to the room.\<close>

lemma local_edit_is_sent:
  assumes "\<not> isRemoteChange s" and "editorRef s = Some ed" and "wsService s = Some i"
      and "ws (services s ! i) = Some k" and "readyState (sockets s ! k) = OPEN"
  shows "outbox (onDidChangeModelContent 1 s) = outbox s @ [(k, code_update_message (buffer ed))]"
  using assms
  by (simp add: onDidChangeModelContent_def setCode_def sendCodeUpdate_def send_def
      triggerAIAutocomplete_def clearTimeout_def abort_def setTimeout_def code_update_message_def
      Let_def split: option.splits)

lemma init_flag:
  assumes "snd (handle_init m s) = None" and "isRemoteChange (fst (handle_init m s))"
  shows "isRemoteChange s"
proof (cases "get_prop m ''data''")
  case (Inl e)
  then show ?thesis using assms by (simp add: handle_init_def try_prop_def)
next
  case d: (Inr d)
  show ?thesis
  proof (cases "get_prop d ''code''")
    case (Inl e)
    then show ?thesis using assms d by (simp add: handle_init_def try_prop_def)
  next
    case c: (Inr c)
    have v: "isRemoteChange ((setIsReconnecting False (setConnected True (setCode x s)))
                     \<lparr>reconnectTimeout := 1000\<rparr>) = isRemoteChange s" for x
      by (simp add: setIsReconnecting_def setConnected_def setCode_def)
    show ?thesis
    proof (cases "editorRef s")
      case None
      then show ?thesis using assms v unfolding handle_init_payload [OF d c] by simp
    next
      case (Some ed)
      show ?thesis
      proof (cases "c = JStr (buffer ed)")
        case True
        then show ?thesis using assms v Some unfolding handle_init_payload [OF d c] by simp
      next
        case False
        then show ?thesis
          using assms Some and_then_clear_flag unfolding handle_init_payload [OF d c]
          by auto
      qed
    qed
  qed
qed

lemma code_update_flag:
  assumes "snd (handle_code_update m s) = None"
  shows "\<not> isRemoteChange (fst (handle_code_update m s))"
proof (cases "get_prop m ''data''")
  case (Inl e)
  then show ?thesis using assms by (simp add: handle_code_update_def try_prop_def)
next
  case d: (Inr d)
  show ?thesis
  proof (cases "get_prop d ''code''")
    case (Inl e)
    then show ?thesis using assms d by (simp add: handle_code_update_def try_prop_def)
  next
    case c: (Inr c)
    show ?thesis
      using assms and_then_clear_flag unfolding handle_code_update_payload [OF d c]
      by blast
  qed
qed

text \<open>
  Claim C4, as amended. The suppression flag is set while a remote write of the buffer
  (an inbound \<^verbatim>\<open>init\<close> or \<^verbatim>\<open>code_update\<close>) runs, so applying one never makes the
  local-change handler send anything, arm the suggestion timer or start a request: the
  frames sent, the timers and the requests are as before. When the application completes
  without throwing, it does not leave the flag set: if the flag is set afterwards, it was
  set before, and after a \<^verbatim>\<open>code_update\<close> it is clear. (Nothing clears the flag when
  the application throws.)
\<close>

theorem remote_apply_is_not_echoed:
  assumes "get_prop message ''type'' = Inr (JStr ''init'')
         \<or> get_prop message ''type'' = Inr (JStr ''code_update'')"
  shows "outbox (fst (dispatch message s)) = outbox s
       \<and> timers (fst (dispatch message s)) = timers s
       \<and> requests (fst (dispatch message s)) = requests s
       \<and> (snd (dispatch message s) = None \<and> isRemoteChange (fst (dispatch message s))
            \<longrightarrow> isRemoteChange s)
       \<and> (get_prop message ''type'' = Inr (JStr ''code_update'')
            \<and> snd (dispatch message s) = None
            \<longrightarrow> \<not> isRemoteChange (fst (dispatch message s)))"
proof -
  have "wire (fst (dispatch message s)) = wire s" by (rule dispatch_wire)
  then have w: "outbox (fst (dispatch message s)) = outbox s"
    "timers (fst (dispatch message s)) = timers s"
    "requests (fst (dispatch message s)) = requests s"
    by (simp_all add: wire_def)
  have f: "snd (dispatch message s) = None \<and> isRemoteChange (fst (dispatch message s))
            \<longrightarrow> isRemoteChange s"
    using assms
  proof
    assume "get_prop message ''type'' = Inr (JStr ''init'')"
    then have "dispatch message s = handle_init message s"
      by (simp add: dispatch_def try_prop_def)
    then show ?thesis using init_flag by auto
  next
    assume "get_prop message ''type'' = Inr (JStr ''code_update'')"
    then have "dispatch message s = handle_code_update message s"
      by (simp add: dispatch_def try_prop_def)
    then show ?thesis using code_update_flag by auto
  qed
  have g: "get_prop message ''type'' = Inr (JStr ''code_update'')
            \<and> snd (dispatch message s) = None
            \<longrightarrow> \<not> isRemoteChange (fst (dispatch message s))"
  proof (intro impI, elim conjE)
    assume "get_prop message ''type'' = Inr (JStr ''code_update'')"
       and n: "snd (dispatch message s) = None"
    then have "dispatch message s = handle_code_update message s"
      by (simp add: dispatch_def try_prop_def)
    then show "\<not> isRemoteChange (fst (dispatch message s))"
      using code_update_flag n by simp
  qed
  from w f g show ?thesis by blast
qed

theorem remote_apply_is_not_echoed_witness:
  "get_prop (code_update_message ''print(1)'') ''type'' = Inr (JStr ''code_update'')
 \<and> snd (dispatch (code_update_message ''print(1)'') ready) = None
 \<and> outbox (fst (dispatch (code_update_message ''print(1)'') ready)) = outbox ready
 \<and> timers (fst (dispatch (code_update_message ''print(1)'') ready)) = timers ready
 \<and> \<not> isRemoteChange (fst (dispatch (code_update_message ''print(1)'') ready))
 \<and> map_option buffer (editorRef (fst (dispatch (code_update_message ''print(1)'') ready)))
     = Some ''print(1)''"
proof -
  have h: "get_prop (code_update_message ''print(1)'') ''type'' = Inr (JStr ''code_update'')"
    by (simp add: code_update_message_def)
  have n: "snd (dispatch (code_update_message ''print(1)'') ready) = None"
    by (simp add: ready_state model_defs)
  have r: "\<not> isRemoteChange ready" by (simp add: ready_state)
  have b: "map_option buffer (editorRef (fst (dispatch (code_update_message ''print(1)'') ready)))
     = Some ''print(1)''"
    by (simp add: ready_state model_defs)
  from remote_apply_is_not_echoed [of "code_update_message ''print(1)''" ready] h n r b
  show ?thesis by blast
qed

text \<open>
  Against C4 as it was stated: a \<^verbatim>\<open>code_update\<close> envelope without \<^verbatim>\<open>data\<close> makes the
  handler throw after it has set the flag, and the flag stays set; the next local edit is
  then taken for a remote one and is not sent.
\<close>

theorem flag_stays_set_when_apply_throws:
  "\<not> isRemoteChange ready
 \<and> isRemoteChange (handle (SockMessage 0 (Some (JObj [(''type'', JStr ''code_update'')]))) ready)
 \<and> outbox (run [(100, SockMessage 0 (Some (JObj [(''type'', JStr ''code_update'')]))),
                 (200, UserEdit ''print(1)'' (Some (1, 9)))] ready) = []"
  by (simp add: ready_state model_defs)

section \<open>Time passing\<close>

lemma advance_idle:
  assumes "\<forall>t\<in>set (timers s). T < due t"
  shows "advance T s = s\<lparr>now := max (now s) T\<rparr>"
proof -
  have "filter (\<lambda>t. due t \<le> T) (timers s) = []"
    using assms by (auto simp: filter_empty_conv)
  then show ?thesis by (simp add: advance_def)
qed

lemma advance_single:
  assumes "timers s = [x]" and "due x \<le> T"
  shows "advance T s = (fire x s)\<lparr>now := max (now (fire x s)) T\<rparr>"
  using assms by (simp add: advance_def Let_def)

section \<open>The throttle of the local cursor\<close>

lemma typed_state:
  "typed = \<lparr>now = 1000,
    timers = [\<lparr>tid = 1, due = 1500, callback = AiFetch ''a'' (1, 2)\<rparr>], next_timer = 2,
    services = [\<lparr>ws = Some 0, reconnectAttempts = 0\<rparr>],
    sockets = [\<lparr>owner = 0, readyState = OPEN, onmessage = ParseThenCallback,
                onclose = CallbackThenReconnect\<rparr>],
    requests = [], outbox = [(0, code_update_message ''a'')],
    console = [Info ''Connecting to WebSocket:'', Info ''WebSocket connected''],
    code = JStr ''a'', connected = True, userCount = JNum 1,
    isReconnecting = False, aiLoading = False, renders = 3, alive = True,
    editorRef = Some \<lparr>buffer = ''a'', cursor = Some (1, 2), decorations = [],
                       next_decoration = 0, writes = 1\<rparr>,
    wsService = Some 0, remoteUsers = [], isRemoteChange = False,
    reconnectTimeout = 1000, reconnectTimer = None,
    cursorUpdateThrottle = None, aiRequestController = None,
    aiDebounceTimer = Some 1\<rparr>"
  by (simp add: typed_def ready_state model_defs)

lemma linked_now: "linked i k out (s\<lparr>now := t\<rparr>) = linked i k out s"
  by (simp add: linked_def)

text \<open>What the body of a background timer leaves alone.\<close>

lemma run_background:
  assumes "background_timer i y" and "ws (services s ! i) = Some k" and "k < length (sockets s)"
  shows "alive (run_callback (callback y) s) = alive s"
    and "userCount (run_callback (callback y) s) = userCount s"
    and "editorRef (run_callback (callback y) s) = editorRef s"
    and "isRemoteChange (run_callback (callback y) s) = isRemoteChange s"
    and "list_ex (\<lambda>r. status r = Aborted) (requests (run_callback (callback y) s))
           = list_ex (\<lambda>r. status r = Aborted) (requests s)"
    and "wsService (run_callback (callback y) s) = wsService s"
    and "ws (services (run_callback (callback y) s) ! i) = Some k"
    and "k < length (sockets (run_callback (callback y) s))"
    and "sockets (run_callback (callback y) s) ! k = sockets s ! k"
    and "outbox (run_callback (callback y) s) = outbox s"
    and "cursorUpdateThrottle (run_callback (callback y) s) = cursorUpdateThrottle s"
    and "next_timer (run_callback (callback y) s) = next_timer s"
    and "timers (run_callback (callback y) s) = timers s"
    and "now (run_callback (callback y) s) = now s"
  using assms
  by (cases "callback y";
      simp add: background_timer_def run_callback_def connect_def console_log_def
        fetchAISuggestions_def setAiLoading_def Let_def nth_append)+

lemma fire_background:
  assumes "linked i k out s" and "background_timer i y"
  shows "linked i k out (fire y s)"
    and "cursorUpdateThrottle (fire y s) = cursorUpdateThrottle s"
    and "next_timer (fire y s) = next_timer s"
    and "set (timers (fire y s)) \<subseteq> set (timers s)"
    and "\<forall>z\<in>set (timers s). tid z \<noteq> tid y \<longrightarrow> z \<in> set (timers (fire y s))"
    and "now (fire y s) \<le> max (now s) (due y)"
proof -
  define u where "u = s\<lparr>timers := filter (\<lambda>x. tid x \<noteq> tid y) (timers s),
                        now := max (now s) (due y)\<rparr>"
  have a: "alive s" "renderable (userCount s)" "editorRef s \<noteq> None" "\<not> isRemoteChange s"
    "\<not> list_ex (\<lambda>r. status r = Aborted) (requests s)" "wsService s = Some i"
    "ws (services s ! i) = Some k" "k < length (sockets s)" "readyState (sockets s ! k) = OPEN"
    "outbox s = out"
    using assms(1) by (simp_all add: linked_def)
  have l: "ws (services u ! i) = Some k" "k < length (sockets u)"
    using a by (simp_all add: u_def)
  note r = run_background [OF assms(2) l]
  have u0: "requests u = requests s" "userCount u = userCount s"
    by (simp_all add: u_def)
  have "settle s (run_callback (callback y) u) = run_callback (callback y) u"
    using a by (intro settle_idle) (simp_all add: r u0)
  then have f: "fire y s = (if list_ex (\<lambda>x. tid x = tid y) (timers s)
                            then run_callback (callback y) u else s)"
    by (simp add: fire_def u_def)
  show "linked i k out (fire y s)"
    using a by (simp add: f linked_def r) (simp add: u_def)
  show "cursorUpdateThrottle (fire y s) = cursorUpdateThrottle s"
    by (simp add: f r) (simp add: u_def)
  show "next_timer (fire y s) = next_timer s"
    by (simp add: f r) (simp add: u_def)
  have t: "timers (run_callback (callback y) u) = filter (\<lambda>x. tid x \<noteq> tid y) (timers s)"
    unfolding r(13) by (simp add: u_def)
  show "set (timers (fire y s)) \<subseteq> set (timers s)"
    by (auto simp: f t)
  show "\<forall>z\<in>set (timers s). tid z \<noteq> tid y \<longrightarrow> z \<in> set (timers (fire y s))"
    by (auto simp: f t)
  show "now (fire y s) \<le> max (now s) (due y)"
    by (simp add: f r) (simp add: u_def)
qed

lemma fold_fire_unthrottled:
  assumes "unthrottled i k out n s" and "\<forall>y\<in>set ys. background_timer i y \<and> due y \<le> T"
      and "now s \<le> T"
  shows "unthrottled i k out n (fold fire ys s) \<and> now (fold fire ys s) \<le> T"
  using assms
proof (induction ys arbitrary: s)
  case Nil
  then show ?case by simp
next
  case (Cons y ys)
  have l: "linked i k out s" and b: "background_timer i y" and d: "due y \<le> T"
    using Cons.prems by (simp_all add: unthrottled_def)
  note f = fire_background [OF l b]
  have "unthrottled i k out n (fire y s)"
    using Cons.prems(1) f(1,2,3,4) unfolding unthrottled_def by auto
  moreover have "now (fire y s) \<le> T"
    using f(6) d Cons.prems(3) by simp
  ultimately show ?case
    using Cons.prems(2) by (simp add: Cons.IH)
qed

lemma advance_unthrottled:
  assumes "unthrottled i k out n s" and "now s \<le> T"
  shows "unthrottled i k out n (advance T s) \<and> now (advance T s) = T"
proof -
  let ?ys = "sort_key due (filter (\<lambda>t. due t \<le> T) (timers s))"
  have "\<forall>y\<in>set ?ys. background_timer i y \<and> due y \<le> T"
    using assms(1) by (auto simp: unthrottled_def)
  from fold_fire_unthrottled [OF assms(1) this assms(2)]
  have u: "unthrottled i k out n (fold fire ?ys s)" "now (fold fire ?ys s) \<le> T"
    by simp_all
  show ?thesis
    unfolding advance_def Let_def using u
    by (auto simp: unthrottled_def linked_def max_def)
qed

lemma first_move_arms:
  assumes "unthrottled i k out n s" and "now s \<le> t0"
  shows "throttled \<lparr>tid = n, due = t0 + 100, callback = CursorSend line column\<rparr> i k out
           (handle (UserCursor line column) (advance t0 s))"
proof -
  define u where "u = advance t0 s"
  have u: "unthrottled i k out n u" "now u = t0"
    using advance_unthrottled [OF assms] by (simp_all add: u_def)
  then obtain ed where ed: "editorRef u = Some ed"
    by (auto simp: unthrottled_def linked_def)
  have r: "react (UserCursor line column) u =
             u\<lparr>editorRef := Some (ed\<lparr>cursor := Some (line, column)\<rparr>),
               timers := timers u @ [\<lparr>tid = n, due = t0 + 100, callback = CursorSend line column\<rparr>],
               next_timer := Suc n, cursorUpdateThrottle := Some n\<rparr>"
    using u ed
    by (simp add: react_def onDidChangeCursorPosition_def sendCursorUpdate_def setTimeout_def
        unthrottled_def linked_def)
  have "settle u (react (UserCursor line column) u) = react (UserCursor line column) u"
    using u by (intro settle_idle) (simp_all add: r unthrottled_def linked_def)
  then have "handle (UserCursor line column) u = react (UserCursor line column) u"
    by (simp add: handle_def)
  then show ?thesis
    unfolding u_def [symmetric] using u(1)
    by (auto simp: r throttled_def unthrottled_def linked_def)
qed

lemma fold_fire_throttled:
  assumes "throttled x i k out s" and "\<forall>y\<in>set ys. tid y \<noteq> tid x \<and> background_timer i y"
  shows "throttled x i k out (fold fire ys s)"
  using assms
proof (induction ys arbitrary: s)
  case Nil
  then show ?case by simp
next
  case (Cons y ys)
  have l: "linked i k out s" and b: "background_timer i y" and t: "tid y \<noteq> tid x"
    using Cons.prems by (simp_all add: throttled_def)
  note f = fire_background [OF l b]
  have "x \<in> set (timers (fire y s))"
    using Cons.prems(1) f(5) t by (auto simp: throttled_def)
  then have "throttled x i k out (fire y s)"
    using Cons.prems(1) f(1,2,4) unfolding throttled_def by auto
  then show ?case
    using Cons.prems(2) by (simp add: Cons.IH)
qed

lemma advance_throttled:
  assumes "throttled x i k out s" and "T < due x"
  shows "throttled x i k out (advance T s)"
proof -
  let ?ys = "sort_key due (filter (\<lambda>t. due t \<le> T) (timers s))"
  have "\<forall>y\<in>set ?ys. tid y \<noteq> tid x \<and> background_timer i y"
    using assms by (auto simp: throttled_def)
  from fold_fire_throttled [OF assms(1) this]
  show ?thesis
    by (simp add: advance_def Let_def throttled_def linked_def)
qed

lemma throttled_move:
  assumes "throttled x i k out s" and "t < due x"
  shows "throttled x i k out (handle (UserCursor line column) (advance t s))"
proof -
  define u where "u = advance t s"
  have u: "throttled x i k out u"
    using advance_throttled [OF assms] by (simp add: u_def)
  then obtain ed where ed: "editorRef u = Some ed"
    by (auto simp: throttled_def linked_def)
  have r: "react (UserCursor line column) u =
             u\<lparr>editorRef := Some (ed\<lparr>cursor := Some (line, column)\<rparr>)\<rparr>"
    using u ed
    by (simp add: react_def onDidChangeCursorPosition_def sendCursorUpdate_def
        throttled_def linked_def)
  have "settle u (react (UserCursor line column) u) = react (UserCursor line column) u"
    using u by (intro settle_idle) (simp_all add: r throttled_def linked_def)
  then have "handle (UserCursor line column) u = react (UserCursor line column) u"
    by (simp add: handle_def)
  then show ?thesis
    unfolding u_def [symmetric] using u
    by (simp add: r throttled_def linked_def)
qed

lemma throttled_moves:
  assumes "throttled x i k out s" and "\<forall>(t, l, c)\<in>set later. t < due x"
  shows "throttled x i k out (run (cursor_moves later) s)"
  using assms
proof (induction later arbitrary: s)
  case Nil
  then show ?case by (simp add: cursor_moves_def)
next
  case (Cons m later)
  obtain t l c where m: "m = (t, l, c)" by (cases m)
  have "throttled x i k out (handle (UserCursor l c) (advance t s))"
    using Cons.prems m by (intro throttled_move) auto
  then have "throttled x i k out (run (cursor_moves later) (handle (UserCursor l c) (advance t s)))"
    using Cons.prems by (intro Cons.IH) auto
  then show ?case using m by (simp add: cursor_moves_def)
qed

text \<open>The throttle's timer fires: the position it was armed with is sent.\<close>

lemma fire_throttle:
  assumes "throttled x i k out s" and "callback x = CursorSend line column"
  shows "released x i k (out @ [(k, cursor_envelope line column)]) (fire x s)"
proof -
  define u where "u = s\<lparr>timers := filter (\<lambda>y. tid y \<noteq> tid x) (timers s),
                        now := max (now s) (due x)\<rparr>"
  have a: "linked i k out s" "x \<in> set (timers s)"
    "\<forall>y\<in>set (timers s). y = x \<or> (tid y \<noteq> tid x \<and> background_timer i y)"
    using assms(1) by (simp_all add: throttled_def)
  have g: "list_ex (\<lambda>y. tid y = tid x) (timers s)"
    using a(2) by (auto simp: list_ex_iff)
  have c: "run_callback (callback x) u =
             u\<lparr>outbox := out @ [(k, cursor_envelope line column)], cursorUpdateThrottle := None\<rparr>"
    using a(1) assms(2)
    by (simp add: run_callback_def cursor_timer_def send_def linked_def u_def)
  have "settle s (run_callback (callback x) u) = run_callback (callback x) u"
    unfolding c using a(1) by (intro settle_idle) (simp_all add: linked_def u_def)
  then have "fire x s = run_callback (callback x) u"
    using g by (simp add: fire_def u_def [symmetric])
  then have f: "fire x s = u\<lparr>outbox := out @ [(k, cursor_envelope line column)],
                               cursorUpdateThrottle := None\<rparr>"
    by (simp only: c)
  have "\<forall>y\<in>set (timers (fire x s)). tid y \<noteq> tid x \<and> background_timer i y"
    using a(3) by (auto simp: f u_def)
  then show ?thesis
    using a(1) by (simp add: released_def linked_def f) (simp add: u_def)
qed

lemma fire_released:
  assumes "released x i k out s" and "z = x \<or> (tid z \<noteq> tid x \<and> background_timer i z)"
  shows "released x i k out (fire z s)"
proof (cases "tid z = tid x")
  case True
  then have "\<not> list_ex (\<lambda>y. tid y = tid z) (timers s)"
    using assms(1) by (auto simp: released_def list_ex_iff)
  then have "fire z s = s" by (simp add: fire_def)
  then show ?thesis using assms(1) by simp
next
  case False
  then have b: "background_timer i z" using assms(2) by auto
  have l: "linked i k out s" using assms(1) by (simp add: released_def)
  note f = fire_background [OF l b]
  show ?thesis
    using assms(1) f(1,4) unfolding released_def by auto
qed

lemma fold_fire_released:
  assumes "released x i k out s"
      and "\<forall>z\<in>set zs. z = x \<or> (tid z \<noteq> tid x \<and> background_timer i z)"
  shows "released x i k out (fold fire zs s)"
  using assms
proof (induction zs arbitrary: s)
  case Nil
  then show ?case by simp
next
  case (Cons z zs)
  have "released x i k out (fire z s)"
    using Cons.prems by (intro fire_released) auto
  then show ?case using Cons.prems by (simp add: Cons.IH)
qed

lemma fold_fire_throttle:
  assumes "throttled x i k out s" and "callback x = CursorSend line column"
      and "\<forall>z\<in>set zs. z = x \<or> (tid z \<noteq> tid x \<and> background_timer i z)"
      and "x \<in> set zs"
  shows "released x i k (out @ [(k, cursor_envelope line column)]) (fold fire zs s)"
  using assms
proof (induction zs arbitrary: s)
  case Nil
  then show ?case by simp
next
  case (Cons z zs)
  show ?case
  proof (cases "z = x")
    case True
    have "released x i k (out @ [(k, cursor_envelope line column)]) (fire x s)"
      using Cons.prems(1,2) by (rule fire_throttle)
    then have "released x i k (out @ [(k, cursor_envelope line column)]) (fold fire zs (fire x s))"
      using Cons.prems(3) by (intro fold_fire_released) auto
    then show ?thesis using True by simp
  next
    case False
    then have z: "tid z \<noteq> tid x" "background_timer i z" "x \<in> set zs"
      using Cons.prems(3,4) by auto
    have "throttled x i k out (fire z s)"
      using fold_fire_throttled [OF Cons.prems(1), of "[z]"] z by simp
    then have "released x i k (out @ [(k, cursor_envelope line column)]) (fold fire zs (fire z s))"
      using Cons.prems(2,3) z(3) by (intro Cons.IH) auto
    then show ?thesis by simp
  qed
qed

lemma throttled_fires:
  assumes "throttled x i k out s" and "callback x = CursorSend line column"
  shows "outbox (advance (due x) s) = out @ [(k, cursor_envelope line column)]"
proof -
  let ?zs = "sort_key due (filter (\<lambda>t. due t \<le> due x) (timers s))"
  have "\<forall>z\<in>set ?zs. z = x \<or> (tid z \<noteq> tid x \<and> background_timer i z)"
    using assms(1) by (auto simp: throttled_def)
  moreover have "x \<in> set ?zs"
    using assms(1) by (simp add: throttled_def)
  ultimately have "released x i k (out @ [(k, cursor_envelope line column)]) (fold fire ?zs s)"
    using assms by (intro fold_fire_throttle)
  then show ?thesis
    by (simp add: advance_def Let_def released_def linked_def)
qed

text \<open>
  Claim C5, as amended. The view is mounted with its editor and can render its participant
  count, the socket of its current service is open, the suppression flag is clear, the
  cursor throttle is not armed, no aborted request awaits its handler, and no reconnect
  is pending: the armed timers are background timers (the debounce timer of the
  suggestions, the reconnect timers of older services), with identifiers handed out
  before. The user moves the cursor at \<open>t0\<close>, not before the present, and then any
  number of times before \<open>t0 + 100\<close>. Nothing is sent before \<open>t0 + 100\<close>; at
  \<open>t0 + 100\<close> exactly one \<^verbatim>\<open>cursor_update\<close> envelope is sent, and the position it
  carries is that of the first move of the burst: the later moves find the throttle armed
  and are dropped.
\<close>

theorem cursor_burst_sends_first_position:
  assumes "alive s" and "renderable (userCount s)" and "editorRef s \<noteq> None"
      and "\<not> isRemoteChange s" and "cursorUpdateThrottle s = None"
      and "\<forall>y\<in>set (timers s). tid y < next_timer s \<and> background_timer i y"
      and "\<not> list_ex (\<lambda>r. status r = Aborted) (requests s)"
      and "wsService s = Some i" and "ws (services s ! i) = Some k" and "k < length (sockets s)"
      and "readyState (sockets s ! k) = OPEN" and "now s \<le> t0"
      and "\<forall>(t, l, c)\<in>set later. t < t0 + 100"
  shows "outbox (run (cursor_moves ((t0, line0, column0) # later)) s) = outbox s
       \<and> outbox (advance (t0 + 100) (run (cursor_moves ((t0, line0, column0) # later)) s))
           = outbox s @ [(k, cursor_envelope line0 column0)]"
proof -
  let ?x = "\<lparr>tid = next_timer s, due = t0 + 100, callback = CursorSend line0 column0\<rparr>"
  have "unthrottled i k (outbox s) (next_timer s) s"
    using assms(1-11) by (simp add: unthrottled_def linked_def)
  then have "throttled ?x i k (outbox s) (handle (UserCursor line0 column0) (advance t0 s))"
    using assms(12) by (rule first_move_arms)
  then have t: "throttled ?x i k (outbox s) (run (cursor_moves ((t0, line0, column0) # later)) s)"
    using assms(13) throttled_moves [of ?x i k "outbox s" _ later]
    by (simp add: cursor_moves_def)
  then have "outbox (advance (due ?x) (run (cursor_moves ((t0, line0, column0) # later)) s))
           = outbox s @ [(k, cursor_envelope line0 column0)]"
    by (rule throttled_fires) simp
  with t show ?thesis by (simp add: throttled_def linked_def)
qed

theorem cursor_burst_sends_first_position_witness:
  "alive typed \<and> renderable (userCount typed) \<and> editorRef typed \<noteq> None
 \<and> \<not> isRemoteChange typed \<and> cursorUpdateThrottle typed = None
 \<and> timers typed = [\<lparr>tid = 1, due = 1500, callback = AiFetch ''a'' (1, 2)\<rparr>]
 \<and> 1 < next_timer typed
 \<and> background_timer 0 \<lparr>tid = 1, due = 1500, callback = AiFetch ''a'' (1, 2)\<rparr>
 \<and> \<not> list_ex (\<lambda>r. status r = Aborted) (requests typed)
 \<and> wsService typed = Some 0 \<and> ws (services typed ! 0) = Some 0 \<and> 0 < length (sockets typed)
 \<and> readyState (sockets typed ! 0) = OPEN \<and> now typed \<le> 1450
 \<and> outbox (run (cursor_moves [(1450, 3, 7), (1480, 4, 1)]) typed) = outbox typed
 \<and> outbox (advance (1450 + 100) (run (cursor_moves [(1450, 3, 7), (1480, 4, 1)]) typed))
     = outbox typed @ [(0, cursor_envelope 3 7)]"
proof -
  have h: "alive typed" "renderable (userCount typed)" "editorRef typed \<noteq> None"
    "\<not> isRemoteChange typed" "cursorUpdateThrottle typed = None"
    "\<forall>y\<in>set (timers typed). tid y < next_timer typed \<and> background_timer 0 y"
    "\<not> list_ex (\<lambda>r. status r = Aborted) (requests typed)"
    "wsService typed = Some 0" "ws (services typed ! 0) = Some 0" "0 < length (sockets typed)"
    "readyState (sockets typed ! 0) = OPEN" "now typed \<le> 1450"
    by (simp_all add: typed_state background_timer_def)
  have t: "timers typed = [\<lparr>tid = 1, due = 1500, callback = AiFetch ''a'' (1, 2)\<rparr>]"
    "1 < next_timer typed"
    "background_timer 0 \<lparr>tid = 1, due = 1500, callback = AiFetch ''a'' (1, 2)\<rparr>"
    by (simp_all add: typed_state background_timer_def)
  have l: "\<forall>(t, l, c)\<in>set [(1480 :: nat, 4 :: nat, 1 :: nat)]. t < 1450 + 100"
    by simp
  from cursor_burst_sends_first_position [OF h l, of 3 7] h(1-5,7-12) t
  show ?thesis by blast
qed

text \<open>
  Against C5 as it was stated: three moves within one window, to (3, 7), (4, 1) and
  (4, 2); the one envelope sent carries (3, 7), not the latest position (4, 2).
\<close>

theorem cursor_burst_does_not_send_latest_position:
  "outbox (advance 2100 (run (cursor_moves [(2000, 3, 7), (2040, 4, 1), (2099, 4, 2)]) ready))
     = [(0, cursor_envelope 3 7)]
 \<and> cursor_envelope 3 7 \<noteq> cursor_envelope 4 2"
  by (simp add: ready_state model_defs)

section \<open>The debounce of the suggestion requests\<close>

lemma edit_frame:
  "timers (sendCodeUpdate i c s) = timers s" "requests (sendCodeUpdate i c s) = requests s"
  "aiDebounceTimer (sendCodeUpdate i c s) = aiDebounceTimer s"
  "aiRequestController (sendCodeUpdate i c s) = aiRequestController s"
  "editorRef (sendCodeUpdate i c s) = editorRef s" "connected (sendCodeUpdate i c s) = connected s"
  "isRemoteChange (sendCodeUpdate i c s) = isRemoteChange s" "now (sendCodeUpdate i c s) = now s"
  "next_timer (sendCodeUpdate i c s) = next_timer s"
  "alive (sendCodeUpdate i c s) = alive s" "userCount (sendCodeUpdate i c s) = userCount s"
  by (simp_all add: sendCodeUpdate_def send_def console_warn_def split: option.splits)

lemma local_edit:
  assumes "editorRef s = Some ed" and "connected s" and "\<not> isRemoteChange s" and "c \<noteq> []"
      and "alive s"
  shows "react (UserEdit c (Some q)) s =
    triggerAIAutocomplete c (Some q)
      (case wsService s of
         None \<Rightarrow> setCode (JStr c) (s\<lparr>editorRef := Some (ed\<lparr>buffer := c, cursor := Some q\<rparr>)\<rparr>)
       | Some i \<Rightarrow> sendCodeUpdate i c
           (setCode (JStr c) (s\<lparr>editorRef := Some (ed\<lparr>buffer := c, cursor := Some q\<rparr>)\<rparr>)))"
  using assms
  by (simp add: react_def onDidChangeModelContent_def setCode_def Let_def split: option.splits)

lemma edit_step:
  assumes "editorRef u = Some ed" and "connected u" and "\<not> isRemoteChange u" and "c \<noteq> []"
      and "alive u" and "renderable (userCount u)"
      and "aiRequestController u = None"
      and "\<not> list_ex (\<lambda>r. status r = Aborted) (requests u)"
      and "timers u = [] \<or> (\<exists>n x. timers u = [x] \<and> tid x = n \<and> aiDebounceTimer u = Some n)"
  shows "debouncing c q (requests u) (handle (UserEdit c (Some q)) u)
       \<and> now (handle (UserEdit c (Some q)) u) = now u"
proof -
  let ?r = "react (UserEdit c (Some q)) u"
  have r: "debouncing c q (requests u) ?r \<and> now ?r = now u"
    unfolding local_edit [OF assms(1-5)]
    using assms
    by (auto simp: debouncing_def triggerAIAutocomplete_def
        setTimeout_def clearTimeout_def edit_frame setCode_def
        split: option.splits)
  then have "settle u ?r = ?r"
    by (intro settle_idle) (auto simp: debouncing_def)
  then show ?thesis
    using r by (simp add: handle_def)
qed

lemma first_edit_arms:
  assumes "editorRef s \<noteq> None" and "connected s" and "\<not> isRemoteChange s" and "timers s = []"
      and "alive s" and "renderable (userCount s)"
      and "aiRequestController s = None"
      and "\<not> list_ex (\<lambda>r. status r = Aborted) (requests s)" and "now s \<le> t" and "c \<noteq> []"
  shows "debouncing c q (requests s) (handle (UserEdit c (Some q)) (advance t s))
       \<and> now (handle (UserEdit c (Some q)) (advance t s)) = t"
proof -
  define u where "u = s\<lparr>now := max (now s) t\<rparr>"
  have a: "advance t s = u"
    unfolding u_def using assms by (intro advance_idle) simp
  obtain ed where ed: "editorRef u = Some ed"
    using assms by (auto simp: u_def)
  have "debouncing c q (requests u) (handle (UserEdit c (Some q)) u)
       \<and> now (handle (UserEdit c (Some q)) u) = now u"
    using ed assms by (intro edit_step) (simp_all add: u_def)
  then show ?thesis
    unfolding a using assms by (auto simp: u_def debouncing_def)
qed

lemma next_edit_rearms:
  assumes "debouncing c0 q0 reqs s" and "now s \<le> t" and "t < now s + 500" and "c \<noteq> []"
  shows "debouncing c q reqs (handle (UserEdit c (Some q)) (advance t s))
       \<and> now (handle (UserEdit c (Some q)) (advance t s)) = t"
proof -
  define u where "u = s\<lparr>now := max (now s) t\<rparr>"
  have a: "advance t s = u"
    unfolding u_def using assms by (intro advance_idle) (auto simp: debouncing_def)
  obtain ed where ed: "editorRef u = Some ed"
    using assms by (auto simp: u_def debouncing_def)
  have "debouncing c q (requests u) (handle (UserEdit c (Some q)) u)
       \<and> now (handle (UserEdit c (Some q)) u) = now u"
    using ed assms by (intro edit_step) (auto simp: u_def debouncing_def)
  then show ?thesis
    unfolding a using assms by (auto simp: u_def debouncing_def)
qed

lemma burst_rearms:
  assumes "debouncing c0 q0 reqs s" and "now s = t0" and "quiet_gaps t0 later"
  shows "case last ((t0, c0, q0) # later) of (T, c, q) \<Rightarrow>
           debouncing c q reqs (run (edits later) s) \<and> now (run (edits later) s) = T"
  using assms
proof (induction later arbitrary: s t0 c0 q0)
  case Nil
  then show ?case by (simp add: edits_def)
next
  case (Cons e later)
  obtain t c q where e: "e = (t, c, q)" by (cases e)
  have g: "t0 \<le> t" "t < t0 + 500" "c \<noteq> []" "quiet_gaps t later"
    using Cons.prems(3) e by simp_all
  have "debouncing c q reqs (handle (UserEdit c (Some q)) (advance t s))
       \<and> now (handle (UserEdit c (Some q)) (advance t s)) = t"
    using Cons.prems(1,2) g by (intro next_edit_rearms) auto
  then have "case last ((t, c, q) # later) of (T, c', q') \<Rightarrow>
           debouncing c' q' reqs (run (edits later) (handle (UserEdit c (Some q)) (advance t s)))
         \<and> now (run (edits later) (handle (UserEdit c (Some q)) (advance t s))) = T"
    using g(4) by (intro Cons.IH) auto
  then show ?case using e by (simp add: edits_def)
qed

lemma debounce_fires:
  assumes "debouncing c q reqs s"
  shows "requests (advance (now s + 500) s)
           = reqs @ [\<lparr>req_code = c, req_position = q, started = now s + 500, status = InFlight\<rparr>]"
proof -
  obtain n where t: "timers s = [\<lparr>tid = n, due = now s + 500, callback = AiFetch c q\<rparr>]"
    using assms by (auto simp: debouncing_def)
  let ?x = "\<lparr>tid = n, due = now s + 500, callback = AiFetch c q\<rparr>"
  define u where "u = s\<lparr>timers := filter (\<lambda>y. tid y \<noteq> tid ?x) (timers s),
                        now := max (now s) (due ?x)\<rparr>"
  have a: "advance (now s + 500) s = (fire ?x s)\<lparr>now := max (now (fire ?x s)) (now s + 500)\<rparr>"
    using t by (intro advance_single) simp_all
  have c: "requests (run_callback (AiFetch c q) u)
             = reqs @ [\<lparr>req_code = c, req_position = q, started = now s + 500, status = InFlight\<rparr>]"
    "userCount (run_callback (AiFetch c q) u) = userCount s"
    using assms
    by (simp_all add: debouncing_def run_callback_def fetchAISuggestions_def setAiLoading_def
        Let_def u_def)
  have "settle s (run_callback (AiFetch c q) u) = run_callback (AiFetch c q) u"
    using assms by (intro settle_idle) (simp_all add: c debouncing_def)
  then have "fire ?x s = run_callback (AiFetch c q) u"
    using t by (simp add: fire_def u_def)
  then show ?thesis
    unfolding a using c(1) by simp
qed

lemma debounce_waits:
  assumes "debouncing c q reqs s" and "T < now s + 500"
  shows "requests (advance T s) = reqs"
proof -
  have "advance T s = s\<lparr>now := max (now s) T\<rparr>"
    using assms by (intro advance_idle) (auto simp: debouncing_def)
  then show ?thesis using assms by (simp add: debouncing_def)
qed

text \<open>
  What the debounce does achieve. The view is mounted and connected, no timer is armed and
  no request is active. The user edits at \<open>t0\<close> and then any number of times, each edit
  less than 500 ms after the one before, every edit leaving a non-empty buffer. Then no
  request is started before 500 ms have passed since the last edit \<open>T\<close>, and at
  \<open>T + 500\<close> exactly one request is started, for the text and the position of the last
  edit: every edit has disarmed the debounce timer and armed it again. And an edit that
  leaves a non-empty buffer aborts the request that \<^verbatim>\<open>aiRequestController\<close> holds.
\<close>

lemma burst_of_edits_starts_one_request:
  assumes "editorRef s \<noteq> None" and "connected s" and "\<not> isRemoteChange s" and "timers s = []"
      and "alive s" and "renderable (userCount s)"
      and "aiRequestController s = None"
      and "\<not> list_ex (\<lambda>r. status r = Aborted) (requests s)" and "now s \<le> t0" and "c0 \<noteq> []"
      and "quiet_gaps t0 later"
  shows "(case last ((t0, c0, q0) # later) of (T, c, q) \<Rightarrow>
            requests (run (edits ((t0, c0, q0) # later)) s) = requests s
          \<and> (\<forall>T' < T + 500. requests (advance T' (run (edits ((t0, c0, q0) # later)) s)) = requests s)
          \<and> requests (advance (T + 500) (run (edits ((t0, c0, q0) # later)) s))
              = requests s @ [\<lparr>req_code = c, req_position = q, started = T + 500,
                                status = InFlight\<rparr>])
       \<and> (aiRequestController u = Some r \<and> r < length (requests u)
            \<and> status (requests u ! r) = InFlight \<and> c1 \<noteq> [] \<longrightarrow>
          status (requests (triggerAIAutocomplete c1 (Some q1) u) ! r) = Aborted)"
proof -
  obtain T c q where l: "last ((t0, c0, q0) # later) = (T, c, q)"
    by (cases "last ((t0, c0, q0) # later)")
  let ?s1 = "handle (UserEdit c0 (Some q0)) (advance t0 s)"
  let ?s2 = "run (edits ((t0, c0, q0) # later)) s"
  have 1: "debouncing c0 q0 (requests s) ?s1 \<and> now ?s1 = t0"
    using assms(1-10) by (rule first_edit_arms)
  have "case last ((t0, c0, q0) # later) of (T, c, q) \<Rightarrow>
           debouncing c q (requests s) (run (edits later) ?s1) \<and> now (run (edits later) ?s1) = T"
    using 1 assms(11) by (intro burst_rearms) auto
  then have 2: "debouncing c q (requests s) ?s2" "now ?s2 = T"
    using l by (simp_all add: edits_def)
  have a: "requests ?s2 = requests s"
    using 2 by (simp add: debouncing_def)
  have b: "\<forall>T' < T + 500. requests (advance T' ?s2) = requests s"
    using debounce_waits [OF 2(1)] 2(2) by simp
  have c: "requests (advance (T + 500) ?s2)
              = requests s @ [\<lparr>req_code = c, req_position = q, started = T + 500,
                                status = InFlight\<rparr>]"
    using debounce_fires [OF 2(1)] 2(2) by simp
  have d: "aiRequestController u = Some r \<and> r < length (requests u)
            \<and> status (requests u ! r) = InFlight \<and> c1 \<noteq> [] \<longrightarrow>
          status (requests (triggerAIAutocomplete c1 (Some q1) u) ! r) = Aborted"
    by (simp add: triggerAIAutocomplete_def setTimeout_def clearTimeout_def abort_def
        split: option.splits)
  from a b c d show ?thesis unfolding l by simp
qed

text \<open>
  Claim C6 asks that an edit cancels the pending request and the request in flight, so
  that one request is made, for the last edit of a burst. The code misses in two places.
  In \<^verbatim>\<open>triggerAIAutocomplete\<close> the guard \<^verbatim>\<open>if (!position || code.length === 0) return\<close>
  comes before \<^verbatim>\<open>clearTimeout\<close> and \<^verbatim>\<open>abort\<close>: an edit that empties the buffer 100 ms
  after an edit leaves the timer armed, and the request starts 500 ms after the first
  edit, for the first edit's text, which is no longer the buffer's. And
  \<^verbatim>\<open>fetchAISuggestions\<close> stores a new AbortController over the one it holds without
  aborting it: a request started from the button while the debounce timer is armed is not
  cancelled when the timer fires, and two requests are in flight.
\<close>

theorem debounce_ignores_emptying_edit_and_requests_overlap:
  "requests (advance 2000 (run [(1000, UserEdit ''a'' (Some (1, 2))), (1100, UserEdit [] (Some (1, 1)))] ready))
     = [\<lparr>req_code = ''a'', req_position = (1, 2), started = 1500, status = InFlight\<rparr>]
 \<and> map_option buffer (editorRef (advance 2000
       (run [(1000, UserEdit ''a'' (Some (1, 2))), (1100, UserEdit [] (Some (1, 1)))] ready)))
     = Some []
 \<and> map status (requests (advance 2000
       (run [(1000, UserEdit ''a'' (Some (1, 2))), (1200, ClickSuggest)] ready)))
     = [InFlight, InFlight]"
  by (simp add: ready_state model_defs)

section \<open>The interval between two suggestion requests\<close>

text \<open>
  Claim C7 asks for a minimum interval between the starts of two requests, whatever the
  input. The code has none: a request from the button and the debounced one start 1 ms
  apart, and two debounced requests start 501 ms apart.
\<close>

theorem no_minimum_interval_between_requests:
  "map started (requests (advance 3000
     (run [(1000, UserEdit ''a'' (Some (1, 2))), (1499, ClickSuggest)] ready))) = [1499, 1500]
 \<and> map started (requests (advance 3000
     (run [(1000, UserEdit ''a'' (Some (1, 2))), (1501, UserEdit ''ab'' (Some (1, 3)))] ready)))
     = [1500, 2001]"
  by (simp add: ready_state model_defs)

section \<open>Teardown\<close>

text \<open>
  Claim C2 asks that no reconnect is scheduled or fired after the teardown. The cleanup
  calls \<^verbatim>\<open>disconnect\<close>, which closes the socket with its \<^verbatim>\<open>onclose\<close> closure still
  attached: when the close event comes, the closure arms the component's reconnect timer
  and the service's own, and both open a new socket. When the connection drops and the
  component unmounts before the reconnect, the component's timer is cleared but the
  service's timer is not, and it opens a new socket.
\<close>

theorem reconnect_after_teardown:
  "map readyState (sockets (run [(1000, Unmount)] ready)) = [CLOSING]
 \<and> map (\<lambda>t. (due t, callback t)) (timers (run [(1000, Unmount), (1010, SockClose 0)] ready))
     = [(2010, EditorReconnect), (3010, ServiceConnect 0)]
 \<and> map (\<lambda>k. (owner k, readyState k))
      (sockets (advance 4000 (run [(1000, Unmount), (1010, SockClose 0)] ready)))
     = [(0, CLOSED), (1, CONNECTING), (0, CONNECTING)]
 \<and> map (\<lambda>t. (due t, callback t)) (timers (run [(1000, SockClose 0), (1500, Unmount)] ready))
     = [(3000, ServiceConnect 0)]
 \<and> map (\<lambda>k. (owner k, readyState k))
      (sockets (advance 4000 (run [(1000, SockClose 0), (1500, Unmount)] ready)))
     = [(0, CLOSED), (0, CONNECTING)]"
  by (simp add: ready_state model_defs)

section \<open>The backoff of the component\<close>

lemma awaitingE:
  assumes "awaiting s"
  obtains i k where "wsService s = Some i" "i < length (services s)"
    "ws (services s ! i) = Some k" "k < length (sockets s)" "owner (sockets s ! k) = i"
    "onclose (sockets s ! k) = CallbackThenReconnect" "readyState (sockets s ! k) \<noteq> CLOSED"
    "\<forall>x\<in>set (timers s). tid x < next_timer s \<and> other_timer i x"
    "reconnectTimer s = None" "\<not> list_ex (\<lambda>r. status r = Aborted) (requests s)"
    "onmessage (sockets s ! k) = ParseThenCallback" "alive s" "renderable (userCount s)"
  using assms by (auto simp: awaiting_def list_all_iff split: option.splits)

lemma awaitingI:
  assumes "wsService s = Some i" "i < length (services s)"
    "ws (services s ! i) = Some k" "k < length (sockets s)" "owner (sockets s ! k) = i"
    "onclose (sockets s ! k) = CallbackThenReconnect" "readyState (sockets s ! k) \<noteq> CLOSED"
    "\<forall>x\<in>set (timers s). tid x < next_timer s \<and> other_timer i x"
    "reconnectTimer s = None" "\<not> list_ex (\<lambda>r. status r = Aborted) (requests s)"
    "onmessage (sockets s ! k) = ParseThenCallback" "alive s" "renderable (userCount s)"
  shows "awaiting s"
  using assms by (simp add: awaiting_def list_all_iff)

text \<open>What firing a timer other than the reconnect timer leaves alone.\<close>

lemma run_other_callback:
  assumes "other_timer b x" and "wsService s = Some i" and "i < length (services s)" and "b \<le> Suc i"
      and "\<not> list_ex (\<lambda>r. status r = Aborted) (requests s)"
  shows "wsService (run_callback (callback x) s) = Some i"
    and "length (services (run_callback (callback x) s)) = length (services s)"
    and "b \<le> i \<Longrightarrow> services (run_callback (callback x) s) ! i = services s ! i"
    and "k < length (sockets s) \<Longrightarrow> sockets (run_callback (callback x) s) ! k = sockets s ! k"
    and "length (sockets s) \<le> length (sockets (run_callback (callback x) s))"
    and "timers (run_callback (callback x) s) = timers s"
    and "next_timer (run_callback (callback x) s) = next_timer s"
    and "reconnectTimer (run_callback (callback x) s) = reconnectTimer s"
    and "reconnectTimeout (run_callback (callback x) s) = reconnectTimeout s"
    and "\<not> list_ex (\<lambda>r. status r = Aborted) (requests (run_callback (callback x) s))"
    and "now (run_callback (callback x) s) = now s"
    and "alive (run_callback (callback x) s) = alive s"
    and "userCount (run_callback (callback x) s) = userCount s"
  using assms
  by (cases "callback x";
      simp add: other_timer_def run_callback_def connect_def console_log_def cursor_timer_def
        send_def console_warn_def fetchAISuggestions_def setAiLoading_def Let_def nth_append
        split: option.splits)+

lemma fire_unfold:
  "fire x s =
     (if list_ex (\<lambda>y. tid y = tid x) (timers s)
      then settle s (run_callback (callback x)
                       (s\<lparr>timers := filter (\<lambda>y. tid y \<noteq> tid x) (timers s),
                          now := max (now s) (due x)\<rparr>))
      else s)"
  by (simp add: fire_def)

lemma fire_other:
  assumes "other_timer b x" and "wsService s = Some i" and "i < length (services s)" and "b \<le> Suc i"
      and "\<not> list_ex (\<lambda>r. status r = Aborted) (requests s)" and "renderable (userCount s)"
  shows "wsService (fire x s) = Some i"
    and "length (services (fire x s)) = length (services s)"
    and "b \<le> i \<Longrightarrow> services (fire x s) ! i = services s ! i"
    and "k < length (sockets s) \<Longrightarrow> sockets (fire x s) ! k = sockets s ! k"
    and "length (sockets s) \<le> length (sockets (fire x s))"
    and "set (timers (fire x s)) \<subseteq> set (timers s)"
    and "\<forall>y\<in>set (timers s). tid y \<noteq> tid x \<longrightarrow> y \<in> set (timers (fire x s))"
    and "next_timer (fire x s) = next_timer s"
    and "reconnectTimer (fire x s) = reconnectTimer s"
    and "reconnectTimeout (fire x s) = reconnectTimeout s"
    and "\<not> list_ex (\<lambda>r. status r = Aborted) (requests (fire x s))"
    and "alive (fire x s) = alive s"
    and "userCount (fire x s) = userCount s"
proof -
  define u where "u = s\<lparr>timers := filter (\<lambda>y. tid y \<noteq> tid x) (timers s),
                        now := max (now s) (due x)\<rparr>"
  have u: "wsService u = Some i" "i < length (services u)"
    "\<not> list_ex (\<lambda>r. status r = Aborted) (requests u)" "userCount u = userCount s"
    using assms by (simp_all add: u_def)
  note r = run_other_callback [OF assms(1) u(1,2) assms(4) u(3)]
  have d: "settle s (run_callback (callback x) u) = run_callback (callback x) u"
    using r(10) assms(6) by (intro settle_idle) (simp_all add: r(13) u(4))
  have f: "fire x s = (if list_ex (\<lambda>y. tid y = tid x) (timers s)
                       then run_callback (callback x) u else s)"
    by (simp add: fire_unfold u_def d [unfolded u_def])
  show "wsService (fire x s) = Some i"
    using r(1) assms by (simp add: f)
  show "length (services (fire x s)) = length (services s)"
    using r(2) by (simp add: f u_def)
  show "b \<le> i \<Longrightarrow> services (fire x s) ! i = services s ! i"
    using r(3) by (simp add: f u_def)
  show "k < length (sockets s) \<Longrightarrow> sockets (fire x s) ! k = sockets s ! k"
    using r(4) [of k] by (simp add: f u_def)
  show "length (sockets s) \<le> length (sockets (fire x s))"
    using r(5) by (simp add: f u_def)
  show "set (timers (fire x s)) \<subseteq> set (timers s)"
    using r(6) by (auto simp: f u_def)
  show "\<forall>y\<in>set (timers s). tid y \<noteq> tid x \<longrightarrow> y \<in> set (timers (fire x s))"
    using r(6) by (auto simp: f u_def)
  show "next_timer (fire x s) = next_timer s"
    using r(7) by (simp add: f u_def)
  show "reconnectTimer (fire x s) = reconnectTimer s"
    using r(8) by (simp add: f u_def)
  show "reconnectTimeout (fire x s) = reconnectTimeout s"
    using r(9) by (simp add: f u_def)
  show "\<not> list_ex (\<lambda>r. status r = Aborted) (requests (fire x s))"
    using r(10) assms(5) by (simp add: f u_def)
  show "alive (fire x s) = alive s"
    using r(12) by (simp add: f u_def)
  show "userCount (fire x s) = userCount s"
    using r(13) by (simp add: f u_def)
qed

lemma other_timer_mono: "other_timer b x \<Longrightarrow> b \<le> c \<Longrightarrow> other_timer c x"
  by (cases "callback x") (simp_all add: other_timer_def)

lemma fire_awaiting:
  assumes "awaiting s" and "wsService s = Some i" and "other_timer i x"
  shows "awaiting (fire x s) \<and> wsService (fire x s) = Some i
       \<and> reconnectTimeout (fire x s) = reconnectTimeout s
       \<and> set (timers (fire x s)) \<subseteq> set (timers s)"
proof -
  from assms(1) obtain i' k where a: "wsService s = Some i'" "i' < length (services s)"
    "ws (services s ! i') = Some k" "k < length (sockets s)" "owner (sockets s ! k) = i'"
    "onclose (sockets s ! k) = CallbackThenReconnect" "readyState (sockets s ! k) \<noteq> CLOSED"
    "\<forall>x\<in>set (timers s). tid x < next_timer s \<and> other_timer i' x"
    "reconnectTimer s = None" "\<not> list_ex (\<lambda>r. status r = Aborted) (requests s)"
    "onmessage (sockets s ! k) = ParseThenCallback" "alive s" "renderable (userCount s)"
    by (rule awaitingE)
  have i: "i' = i" using a(1) assms(2) by simp
  note f = fire_other [OF assms(3) assms(2) a(2) [unfolded i] _ a(10) a(13)]
  have "awaiting (fire x s)"
  proof (rule awaitingI)
    show "wsService (fire x s) = Some i" using f(1) by simp
    show "i < length (services (fire x s))" using f(2) a(2) i by simp
    show "ws (services (fire x s) ! i) = Some k" using f(3) a(3) i by simp
    show "k < length (sockets (fire x s))" using f(5) a(4) by simp
    show "owner (sockets (fire x s) ! k) = i" using f(4) [OF _ a(4)] a(5) i by simp
    show "onclose (sockets (fire x s) ! k) = CallbackThenReconnect"
      using f(4) [OF _ a(4)] a(6) by simp
    show "readyState (sockets (fire x s) ! k) \<noteq> CLOSED"
      using f(4) [OF _ a(4)] a(7) by simp
    show "\<forall>y\<in>set (timers (fire x s)). tid y < next_timer (fire x s) \<and> other_timer i y"
      using f(6,8) a(8) i by auto
    show "reconnectTimer (fire x s) = None" using f(9) a(9) by simp
    show "\<not> list_ex (\<lambda>r. status r = Aborted) (requests (fire x s))" using f(11) by simp
    show "onmessage (sockets (fire x s) ! k) = ParseThenCallback"
      using f(4) [OF _ a(4)] a(11) by simp
    show "alive (fire x s)" using f(12) a(12) by simp
    show "renderable (userCount (fire x s))" using f(13) a(13) by simp
  qed
  then show ?thesis using f(1,6,10) by simp
qed

lemma fire_pending_other:
  assumes "pending i e r s" and "tid x \<noteq> tid e" and "other_timer (Suc i) x"
  shows "pending i e r (fire x s)"
proof -
  have p: "wsService s = Some i" "i < length (services s)" "reconnectTimer s = Some (tid e)"
    "reconnectTimeout s = r" "callback e = EditorReconnect" "e \<in> set (timers s)"
    "\<forall>x\<in>set (timers s). tid x < next_timer s
          \<and> (x = e \<or> (tid x \<noteq> tid e \<and> other_timer (Suc i) x))"
    "\<not> list_ex (\<lambda>r. status r = Aborted) (requests s)"
    "alive s" "renderable (userCount s)"
    using assms(1) by (simp_all add: pending_def)
  note f = fire_other [OF assms(3) p(1,2) _ p(8) p(10)]
  have "e \<in> set (timers (fire x s))"
    using f(7) p(6) assms(2) by auto
  moreover have "\<forall>y\<in>set (timers (fire x s)). tid y < next_timer (fire x s)
          \<and> (y = e \<or> (tid y \<noteq> tid e \<and> other_timer (Suc i) y))"
    using f(6,8) p(7) by auto
  ultimately show ?thesis
    using f(1,2,9,10,11,12,13) p by (simp add: pending_def)
qed

lemma reconnect_timer_result:
  assumes "wsService s = Some i"
  shows "wsService (reconnect_timer s) = Some (length (services s))"
    and "length (services (reconnect_timer s)) = Suc (length (services s))"
    and "ws (services (reconnect_timer s) ! length (services s)) = Some (length (sockets s))"
    and "length (sockets (reconnect_timer s)) = Suc (length (sockets s))"
    and "sockets (reconnect_timer s) ! length (sockets s)
           = \<lparr>owner = length (services s), readyState = CONNECTING,
               onmessage = ParseThenCallback, onclose = CallbackThenReconnect\<rparr>"
    and "timers (reconnect_timer s) = timers s"
    and "next_timer (reconnect_timer s) = next_timer s"
    and "reconnectTimer (reconnect_timer s) = None"
    and "reconnectTimeout (reconnect_timer s) = min (reconnectTimeout s * 2) 30000"
    and "requests (reconnect_timer s) = requests s"
    and "alive (reconnect_timer s) = alive s"
    and "userCount (reconnect_timer s) = userCount s"
  using assms
  by (simp_all add: reconnect_timer_def console_log_def disconnect_def ws_close_def
      initializeWebSocket_def new_WebSocketService_def connect_def onMessage_def onClose_def
      Let_def nth_append split: option.splits)

lemma fire_pending_reconnect:
  assumes "pending i e r s"
  shows "resumed i e (min (r * 2) 30000) (fire e s)"
proof -
  have p: "wsService s = Some i" "i < length (services s)" "reconnectTimer s = Some (tid e)"
    "reconnectTimeout s = r" "callback e = EditorReconnect" "e \<in> set (timers s)"
    "\<forall>x\<in>set (timers s). tid x < next_timer s
          \<and> (x = e \<or> (tid x \<noteq> tid e \<and> other_timer (Suc i) x))"
    "\<not> list_ex (\<lambda>r. status r = Aborted) (requests s)"
    "alive s" "renderable (userCount s)"
    using assms(1) by (simp_all add: pending_def)
  define u where "u = s\<lparr>timers := filter (\<lambda>y. tid y \<noteq> tid e) (timers s),
                        now := max (now s) (due e)\<rparr>"
  have u: "wsService u = Some i" "services u = services s" "next_timer u = next_timer s"
    "requests u = requests s" "reconnectTimeout u = r"
    "timers u = filter (\<lambda>y. tid y \<noteq> tid e) (timers s)"
    "alive u = alive s" "userCount u = userCount s"
    by (simp_all add: u_def p)
  note r = reconnect_timer_result [OF u(1)]
  have g: "list_ex (\<lambda>y. tid y = tid e) (timers s)"
    using p(6) by (auto simp: list_ex_iff)
  have "\<not> list_ex (\<lambda>r. status r = Aborted) (requests (reconnect_timer u))"
    using p(8) by (simp add: r(10) u(4))
  moreover have "renderable (userCount (reconnect_timer u))"
    using p(10) by (simp add: r(12) u(8))
  ultimately have d: "settle s (reconnect_timer u) = reconnect_timer u"
    by (rule settle_idle)
  have "fire e s = settle s (run_callback (callback e) u)"
    unfolding u_def using g by (simp only: fire_unfold if_True)
  also have "run_callback (callback e) u = reconnect_timer u"
    by (simp add: p(5) run_callback_def)
  finally have f: "fire e s = reconnect_timer u"
    using d by simp
  have t: "tid x \<noteq> tid e \<and> tid x < next_timer s \<and> other_timer (Suc i) x"
    if "x \<in> set (timers (reconnect_timer u))" for x
  proof -
    from that have x: "x \<in> set (timers s)" "tid x \<noteq> tid e"
      by (simp_all add: r(6) u(6))
    then have "x \<noteq> e" by auto
    with x p(7) show ?thesis by blast
  qed
  have "awaiting (reconnect_timer u)"
  proof (rule awaitingI)
    show "wsService (reconnect_timer u) = Some (length (services u))" by (rule r(1))
    show "length (services u) < length (services (reconnect_timer u))" by (simp add: r(2))
    show "ws (services (reconnect_timer u) ! length (services u)) = Some (length (sockets u))"
      by (rule r(3))
    show "length (sockets u) < length (sockets (reconnect_timer u))" by (simp add: r(4))
    show "owner (sockets (reconnect_timer u) ! length (sockets u)) = length (services u)"
      by (simp add: r(5))
    show "onclose (sockets (reconnect_timer u) ! length (sockets u)) = CallbackThenReconnect"
      by (simp add: r(5))
    show "readyState (sockets (reconnect_timer u) ! length (sockets u)) \<noteq> CLOSED"
      by (simp add: r(5))
    show "\<forall>x\<in>set (timers (reconnect_timer u)).
            tid x < next_timer (reconnect_timer u) \<and> other_timer (length (services u)) x"
    proof
      fix x assume "x \<in> set (timers (reconnect_timer u))"
      then have x: "tid x < next_timer s" "other_timer (Suc i) x" using t by auto
      have "Suc i \<le> length (services u)" using p(2) by (simp add: u(2))
      then have "other_timer (length (services u)) x"
        using x(2) other_timer_mono by blast
      then show "tid x < next_timer (reconnect_timer u) \<and> other_timer (length (services u)) x"
        using x(1) by (simp add: r(7) u(3))
    qed
    show "reconnectTimer (reconnect_timer u) = None" by (rule r(8))
    show "\<not> list_ex (\<lambda>r. status r = Aborted) (requests (reconnect_timer u))"
      using p(8) by (simp add: r(10) u(4))
    show "onmessage (sockets (reconnect_timer u) ! length (sockets u)) = ParseThenCallback"
      by (simp add: r(5))
    show "alive (reconnect_timer u)" using p(9) by (simp add: r(11) u(7))
    show "renderable (userCount (reconnect_timer u))" using p(10) by (simp add: r(12) u(8))
  qed
  moreover have "\<exists>i'. wsService (reconnect_timer u) = Some i' \<and> i < i'"
    using p(2) by (simp add: r(1) u(2))
  moreover have "reconnectTimeout (reconnect_timer u) = min (r * 2) 30000"
    by (simp add: r(9) u(5))
  moreover have "\<forall>x\<in>set (timers (reconnect_timer u)). tid x \<noteq> tid e"
    using t by blast
  ultimately show ?thesis
    by (simp add: resumed_def f)
qed

lemma fire_resumed:
  assumes "resumed i e r s" and "x = e \<or> (tid x \<noteq> tid e \<and> other_timer (Suc i) x)"
  shows "resumed i e r (fire x s)"
proof -
  obtain i' where a: "awaiting s" "wsService s = Some i'" "i < i'"
    "\<forall>x\<in>set (timers s). tid x \<noteq> tid e" "reconnectTimeout s = r"
    using assms(1) unfolding resumed_def by blast
  show ?thesis
  proof (cases "tid x = tid e")
    case True
    then have "\<not> list_ex (\<lambda>y. tid y = tid x) (timers s)"
      using a(4) by (simp add: list_ex_iff)
    then have "fire x s = s" by (simp add: fire_unfold)
    then show ?thesis using assms(1) by simp
  next
    case False
    then have "other_timer (Suc i) x" using assms(2) by blast
    moreover have "Suc i \<le> i'" using a(3) by simp
    ultimately have o: "other_timer i' x" by (rule other_timer_mono)
    have f: "awaiting (fire x s)" "wsService (fire x s) = Some i'"
      "reconnectTimeout (fire x s) = reconnectTimeout s"
      "set (timers (fire x s)) \<subseteq> set (timers s)"
      using fire_awaiting [OF a(1,2) o] by blast+
    have "\<forall>y\<in>set (timers (fire x s)). tid y \<noteq> tid e"
      using f(4) a(4) by blast
    moreover have "\<exists>j. wsService (fire x s) = Some j \<and> i < j"
      using f(2) a(3) by blast
    ultimately show ?thesis
      unfolding resumed_def using f(1,3) a(5) by simp
  qed
qed

lemma fold_fire_resumed:
  assumes "resumed i e r s"
      and "\<forall>x\<in>set xs. x = e \<or> (tid x \<noteq> tid e \<and> other_timer (Suc i) x)"
  shows "resumed i e r (fold fire xs s)"
  using assms
proof (induction xs arbitrary: s)
  case Nil
  then show ?case by simp
next
  case (Cons x xs)
  have "resumed i e r (fire x s)"
    using Cons.prems by (intro fire_resumed) auto
  then show ?case using Cons.prems by (simp add: Cons.IH)
qed

lemma fold_fire_pending:
  assumes "pending i e r s"
      and "\<forall>x\<in>set xs. x = e \<or> (tid x \<noteq> tid e \<and> other_timer (Suc i) x)"
      and "e \<in> set xs"
  shows "resumed i e (min (r * 2) 30000) (fold fire xs s)"
  using assms
proof (induction xs arbitrary: s)
  case Nil
  then show ?case by simp
next
  case (Cons x xs)
  show ?case
  proof (cases "x = e")
    case True
    have "resumed i e (min (r * 2) 30000) (fire e s)"
      using Cons.prems(1) by (rule fire_pending_reconnect)
    then have "resumed i e (min (r * 2) 30000) (fold fire xs (fire e s))"
      using Cons.prems(2) by (intro fold_fire_resumed) auto
    then show ?thesis using True by simp
  next
    case False
    then have x: "tid x \<noteq> tid e" "other_timer (Suc i) x" "e \<in> set xs"
      using Cons.prems(2,3) by auto
    have "pending i e r (fire x s)"
      using Cons.prems(1) x(1,2) by (rule fire_pending_other)
    then have "resumed i e (min (r * 2) 30000) (fold fire xs (fire x s))"
      using Cons.prems(2) x(3) by (intro Cons.IH) auto
    then show ?thesis by simp
  qed
qed

lemma fold_fire_awaiting:
  assumes "awaiting s" and "wsService s = Some i" and "\<forall>x\<in>set xs. other_timer i x"
  shows "awaiting (fold fire xs s) \<and> wsService (fold fire xs s) = Some i
       \<and> reconnectTimeout (fold fire xs s) = reconnectTimeout s"
  using assms
proof (induction xs arbitrary: s)
  case Nil
  then show ?case by simp
next
  case (Cons x xs)
  have f: "awaiting (fire x s) \<and> wsService (fire x s) = Some i
       \<and> reconnectTimeout (fire x s) = reconnectTimeout s
       \<and> set (timers (fire x s)) \<subseteq> set (timers s)"
    using Cons.prems by (intro fire_awaiting) auto
  then have "awaiting (fold fire xs (fire x s)) \<and> wsService (fold fire xs (fire x s)) = Some i
       \<and> reconnectTimeout (fold fire xs (fire x s)) = reconnectTimeout (fire x s)"
    using Cons.prems(3) by (intro Cons.IH) auto
  then show ?case using f by simp
qed

lemma awaiting_now: "awaiting (s\<lparr>now := t\<rparr>) = awaiting s"
  by (simp add: awaiting_def cong: option.case_cong)

lemma advance_awaiting:
  assumes "awaiting s"
  shows "awaiting (advance T s) \<and> wsService (advance T s) = wsService s
       \<and> reconnectTimeout (advance T s) = reconnectTimeout s"
proof -
  from assms obtain i where i: "wsService s = Some i"
    "\<forall>x\<in>set (timers s). tid x < next_timer s \<and> other_timer i x"
    by (auto elim: awaitingE)
  have "\<forall>x\<in>set (sort_key due (filter (\<lambda>t. due t \<le> T) (timers s))). other_timer i x"
    using i(2) by auto
  from fold_fire_awaiting [OF assms i(1) this] show ?thesis
    using i(1) by (simp add: advance_def Let_def awaiting_now)
qed

lemma advance_pending:
  assumes "pending i e r s" and "due e \<le> T"
  shows "awaiting (advance T s) \<and> reconnectTimeout (advance T s) = min (r * 2) 30000
       \<and> (\<exists>j. wsService (advance T s) = Some j \<and> i < j)"
proof -
  let ?xs = "sort_key due (filter (\<lambda>t. due t \<le> T) (timers s))"
  have p: "e \<in> set (timers s)"
    "\<forall>x\<in>set (timers s). x = e \<or> (tid x \<noteq> tid e \<and> other_timer (Suc i) x)"
    using assms(1) by (auto simp: pending_def)
  have "\<forall>x\<in>set ?xs. x = e \<or> (tid x \<noteq> tid e \<and> other_timer (Suc i) x)"
    using p(2) by auto
  moreover have "e \<in> set ?xs" using p(1) assms(2) by simp
  ultimately have "resumed i e (min (r * 2) 30000) (fold fire ?xs s)"
    using assms(1) by (intro fold_fire_pending)
  then show ?thesis
    by (simp add: advance_def Let_def resumed_def awaiting_now)
qed

lemma close_result:
  assumes "wsService s = Some i" and "ws (services s ! i) = Some k" and "k < length (sockets s)"
      and "owner (sockets s ! k) = i" and "onclose (sockets s ! k) = CallbackThenReconnect"
      and "readyState (sockets s ! k) \<noteq> CLOSED" and "reconnectTimer s = None"
      and "\<not> list_ex (\<lambda>r. status r = Aborted) (requests s)" and "i < length (services s)"
      and "renderable (userCount s)"
  shows "timers (handle (SockClose k) s) =
           timers s @ [\<lparr>tid = next_timer s, due = now s + reconnectTimeout s,
                         callback = EditorReconnect\<rparr>]
             @ (if reconnectAttempts (services s ! i) < maxReconnectAttempts
                then [\<lparr>tid = Suc (next_timer s), due = now s + reconnectDelay,
                       callback = ServiceConnect i\<rparr>]
                else [])"
    and "next_timer s < next_timer (handle (SockClose k) s)"
    and "next_timer (handle (SockClose k) s) =
           (if reconnectAttempts (services s ! i) < maxReconnectAttempts
            then Suc (Suc (next_timer s)) else Suc (next_timer s))"
    and "wsService (handle (SockClose k) s) = Some i"
    and "length (services (handle (SockClose k) s)) = length (services s)"
    and "reconnectTimer (handle (SockClose k) s) = Some (next_timer s)"
    and "reconnectTimeout (handle (SockClose k) s) = reconnectTimeout s"
    and "now (handle (SockClose k) s) = now s"
    and "requests (handle (SockClose k) s) = requests s"
    and "alive (handle (SockClose k) s) = alive s"
    and "userCount (handle (SockClose k) s) = userCount s"
  using assms
  by (simp_all add: handle_def react_def run_onclose_def close_callback_def attemptReconnect_def
      setConnected_def setIsReconnecting_def setTimeout_def service_attemptReconnect_def
      console_log_def console_error_def settle_def rerender_def drain_def Let_def)

lemma close_pending:
  assumes "awaiting s" and "current_socket s = Some k"
  shows "\<exists>i. wsService s = Some i
           \<and> pending i \<lparr>tid = next_timer s, due = now s + reconnectTimeout s,
                          callback = EditorReconnect\<rparr> (reconnectTimeout s)
               (handle (SockClose k) s)"
    and "now (handle (SockClose k) s) = now s"
    and "reconnectTimeout (handle (SockClose k) s) = reconnectTimeout s"
    and "\<lparr>tid = next_timer s, due = now s + reconnectTimeout s, callback = EditorReconnect\<rparr>
           \<in> set (timers (handle (SockClose k) s))"
proof -
  from assms(1) obtain i k' where a: "wsService s = Some i" "i < length (services s)"
    "ws (services s ! i) = Some k'" "k' < length (sockets s)" "owner (sockets s ! k') = i"
    "onclose (sockets s ! k') = CallbackThenReconnect" "readyState (sockets s ! k') \<noteq> CLOSED"
    "\<forall>x\<in>set (timers s). tid x < next_timer s \<and> other_timer i x"
    "reconnectTimer s = None" "\<not> list_ex (\<lambda>r. status r = Aborted) (requests s)"
    "onmessage (sockets s ! k') = ParseThenCallback" "alive s" "renderable (userCount s)"
    by (rule awaitingE)
  have k: "k' = k" using assms(2) a(1,3) by (simp add: current_socket_def)
  note c = close_result [OF a(1) a(3) [unfolded k] a(4) [unfolded k] a(5) [unfolded k]
      a(6) [unfolded k] a(7) [unfolded k] a(9) a(10) a(2) a(13)]
  let ?e = "\<lparr>tid = next_timer s, due = now s + reconnectTimeout s, callback = EditorReconnect\<rparr>"
  let ?s2 = "handle (SockClose k) s"
  show "now ?s2 = now s" by (rule c(8))
  show "reconnectTimeout ?s2 = reconnectTimeout s" by (rule c(7))
  show m: "?e \<in> set (timers ?s2)" by (simp add: c(1))
  have t: "tid x < next_timer ?s2 \<and> (x = ?e \<or> (tid x \<noteq> tid ?e \<and> other_timer (Suc i) x))"
    if "x \<in> set (timers ?s2)" for x
  proof -
    from that consider "x \<in> set (timers s)" | "x = ?e"
      | "x = \<lparr>tid = Suc (next_timer s), due = now s + reconnectDelay, callback = ServiceConnect i\<rparr>"
        "next_timer ?s2 = Suc (Suc (next_timer s))"
      unfolding c(1) c(3) by (auto split: if_splits)
    then show ?thesis
    proof cases
      case 1
      then have "tid x < next_timer s" "other_timer i x" using a(8) by auto
      then show ?thesis using c(2) other_timer_mono [of i x "Suc i"] by auto
    next
      case 2
      then show ?thesis using c(2) by simp
    next
      case 3
      then show ?thesis by (simp add: other_timer_def)
    qed
  qed
  have "pending i ?e (reconnectTimeout s) ?s2"
    unfolding pending_def using c(4,5,6,7,9,10,11) a(2,10,12,13) m t by simp
  then show "\<exists>i. wsService s = Some i \<and> pending i ?e (reconnectTimeout s) ?s2"
    using a(1) by blast
qed

lemma fail_attempt_awaiting:
  assumes "awaiting s"
  shows "awaiting (fail_attempt d s)
       \<and> reconnectTimeout (fail_attempt d s) = min (reconnectTimeout s * 2) 30000
       \<and> (\<exists>i j. wsService s = Some i \<and> wsService (fail_attempt d s) = Some j \<and> i < j)"
proof -
  let ?s1 = "advance (now s + d) s"
  have s1: "awaiting ?s1" "reconnectTimeout ?s1 = reconnectTimeout s"
    "wsService ?s1 = wsService s"
    using advance_awaiting [OF assms] by simp_all
  from s1(1) obtain k where k: "current_socket ?s1 = Some k"
    by (auto elim!: awaitingE simp: current_socket_def)
  let ?s2 = "handle (SockClose k) ?s1"
  let ?e = "\<lparr>tid = next_timer ?s1, due = now ?s1 + reconnectTimeout ?s1,
             callback = EditorReconnect\<rparr>"
  obtain i where p: "wsService ?s1 = Some i" "pending i ?e (reconnectTimeout ?s1) ?s2"
    using close_pending(1) [OF s1(1) k] by blast
  have n: "now ?s2 + reconnectTimeout ?s2 = now ?s1 + reconnectTimeout ?s1"
    using close_pending(2,3) [OF s1(1) k] by simp
  have f: "fail_attempt d s = advance (now ?s2 + reconnectTimeout ?s2) ?s2"
    using k by (simp add: fail_attempt_def Let_def)
  have "awaiting (advance (now ?s2 + reconnectTimeout ?s2) ?s2)
      \<and> reconnectTimeout (advance (now ?s2 + reconnectTimeout ?s2) ?s2)
          = min (reconnectTimeout ?s1 * 2) 30000
      \<and> (\<exists>j. wsService (advance (now ?s2 + reconnectTimeout ?s2) ?s2) = Some j \<and> i < j)"
    using p(2) by (rule advance_pending) (simp add: n)
  then have "awaiting (fail_attempt d s)"
    "reconnectTimeout (fail_attempt d s) = min (reconnectTimeout s * 2) 30000"
    "\<exists>j. wsService (fail_attempt d s) = Some j \<and> i < j"
    unfolding f using s1(2) by simp_all
  moreover have "wsService s = Some i"
    using p(1) s1(3) by simp
  ultimately show ?thesis by blast
qed

lemma backoff_arith:
  fixes r :: nat
  assumes "r \<le> 30000"
  shows "min (min (r * 2) 30000 * 2 ^ n) 30000 = min (r * 2 ^ Suc n) 30000"
proof (cases "r * 2 \<le> 30000")
  case True
  then show ?thesis by (simp add: mult.assoc)
next
  case False
  define q :: nat where "q = r * 2"
  define p :: nat where "p = 2 ^ n"
  have p: "1 \<le> p" by (simp add: p_def)
  have q: "30000 < q" using False by (simp add: q_def)
  have "q \<le> q * p" using p by (metis mult_le_mono2 nat_mult_1_right)
  then have "30000 \<le> q * p" using q by linarith
  moreover have "(30000::nat) \<le> 30000 * p" using p by (metis mult_le_mono2 nat_mult_1_right)
  ultimately have "min (min q 30000 * p) 30000 = min (q * p) 30000"
    using q by (simp add: min_def)
  moreover have "r * 2 ^ Suc n = q * p" by (simp add: q_def p_def)
  ultimately show ?thesis by (simp only: q_def p_def)
qed

text \<open>
  After \<open>n\<close> failed attempts the component waits on a connection again, with a service
  created at least \<open>n\<close> services later, and the interval is \<open>min (r * 2 ^ n) 30000\<close>.
\<close>

lemma failed_attempts_backoff:
  assumes "awaiting s" and "reconnectTimeout s \<le> 30000"
  shows "awaiting (failed_attempts ds s)
       \<and> reconnectTimeout (failed_attempts ds s) = min (reconnectTimeout s * 2 ^ length ds) 30000
       \<and> (\<exists>i j. wsService s = Some i \<and> wsService (failed_attempts ds s) = Some j
                \<and> i + length ds \<le> j)"
  using assms
proof (induction ds arbitrary: s)
  case Nil
  then show ?case by (auto simp: failed_attempts_def elim: awaitingE)
next
  case (Cons d ds)
  have f: "awaiting (fail_attempt d s)"
    "reconnectTimeout (fail_attempt d s) = min (reconnectTimeout s * 2) 30000"
    using fail_attempt_awaiting [OF Cons.prems(1)] by simp_all
  obtain i j where g: "wsService s = Some i" "wsService (fail_attempt d s) = Some j" "i < j"
    using fail_attempt_awaiting [OF Cons.prems(1), of d] by blast
  have h: "awaiting (failed_attempts ds (fail_attempt d s))
       \<and> reconnectTimeout (failed_attempts ds (fail_attempt d s))
           = min (reconnectTimeout (fail_attempt d s) * 2 ^ length ds) 30000
       \<and> (\<exists>i j. wsService (fail_attempt d s) = Some i
                \<and> wsService (failed_attempts ds (fail_attempt d s)) = Some j
                \<and> i + length ds \<le> j)"
    using f by (intro Cons.IH) simp_all
  then obtain j' where j': "wsService (failed_attempts ds (fail_attempt d s)) = Some j'"
    "j + length ds \<le> j'"
    using g(2) by auto
  have "\<exists>i j. wsService s = Some i \<and> wsService (failed_attempts (d # ds) s) = Some j
                \<and> i + length (d # ds) \<le> j"
    using g(1,3) j' by (simp add: failed_attempts_def)
  moreover have "awaiting (failed_attempts (d # ds) s)"
    using h by (simp add: failed_attempts_def)
  moreover have "reconnectTimeout (failed_attempts (d # ds) s)
                   = min (reconnectTimeout s * 2 ^ length (d # ds)) 30000"
    using h backoff_arith [OF Cons.prems(2), of "length ds"]
    by (simp add: failed_attempts_def f(2))
  ultimately show ?case by blast
qed

text \<open>
  Claim C1. The component's \<^verbatim>\<open>attemptReconnect\<close> supervises the connection, and it
  counts nothing. From a state in which the mounted component waits on a connection, its
  backoff interval not above 30000 ms, after any sequence of failed attempts the component waits on a connection again: every failure
  has been followed by a new attempt, made with a new service, so the index of the current
  service has grown by at least the number of failures. The backoff interval is at most
  30000 ms; and when the socket of the current service closes once more, the component's
  reconnect timer is armed with that interval: a further attempt is scheduled, at most
  30000 ms ahead.
\<close>

theorem reconnect_attempts_are_never_capped:
  assumes "awaiting s" and "reconnectTimeout s \<le> 30000"
  shows "awaiting (failed_attempts ds s)
       \<and> (\<exists>i j. wsService s = Some i \<and> wsService (failed_attempts ds s) = Some j
                \<and> i + length ds \<le> j)
       \<and> reconnectTimeout (failed_attempts ds s) \<le> 30000
       \<and> (\<exists>k. current_socket (failed_attempts ds s) = Some k
              \<and> \<lparr>tid = next_timer (failed_attempts ds s),
                  due = now (failed_attempts ds s) + reconnectTimeout (failed_attempts ds s),
                  callback = EditorReconnect\<rparr>
                   \<in> set (timers (handle (SockClose k) (failed_attempts ds s))))"
proof -
  let ?F = "failed_attempts ds s"
  have 1: "awaiting ?F"
    "reconnectTimeout ?F = min (reconnectTimeout s * 2 ^ length ds) 30000"
    "\<exists>i j. wsService s = Some i \<and> wsService ?F = Some j \<and> i + length ds \<le> j"
    using failed_attempts_backoff [OF assms, of ds] by simp_all
  have 2: "reconnectTimeout ?F \<le> 30000"
    unfolding 1(2) by simp
  from 1(1) obtain k where k: "current_socket ?F = Some k"
    by (auto elim!: awaitingE simp: current_socket_def)
  have "\<lparr>tid = next_timer ?F, due = now ?F + reconnectTimeout ?F, callback = EditorReconnect\<rparr>
          \<in> set (timers (handle (SockClose k) ?F))"
    using 1(1) k by (rule close_pending(4))
  with k have 3: "\<exists>k. current_socket ?F = Some k
              \<and> \<lparr>tid = next_timer ?F, due = now ?F + reconnectTimeout ?F,
                  callback = EditorReconnect\<rparr>
                   \<in> set (timers (handle (SockClose k) ?F))"
    by blast
  from 1(1,3) 2 3 show ?thesis by blast
qed

theorem reconnect_attempts_are_never_capped_witness:
  "awaiting mounted \<and> reconnectTimeout mounted \<le> 30000 \<and> wsService mounted = Some 0
 \<and> awaiting (failed_attempts [20, 30, 10, 5, 5, 5, 5] mounted)
 \<and> (\<exists>j. wsService (failed_attempts [20, 30, 10, 5, 5, 5, 5] mounted) = Some j \<and> 7 \<le> j)
 \<and> reconnectTimeout (failed_attempts [20, 30, 10, 5, 5, 5, 5] mounted) \<le> 30000"
proof -
  have h: "awaiting mounted" "reconnectTimeout mounted \<le> 30000"
    by (simp_all add: mounted_def awaiting_def model_defs)
  have w: "wsService mounted = Some 0" by (simp add: mounted_def model_defs)
  from reconnect_attempts_are_never_capped [OF h, of "[20, 30, 10, 5, 5, 5, 5]"] h w
  show ?thesis by auto
qed

section \<open>The reset of the backoff\<close>

lemma init_resets_backoff:
  assumes "get_prop m ''type'' = Inr (JStr ''init'')" and "get_prop m ''data'' = Inr dd"
      and "get_prop dd ''code'' = Inr c"
  shows "reconnectTimeout (fst (dispatch m u)) = 1000"
proof -
  let ?u1 = "(setIsReconnecting False (setConnected True (setCode c u)))
               \<lparr>reconnectTimeout := 1000, isRemoteChange := True\<rparr>"
  have d: "dispatch m u = handle_init m u"
    using assms(1) by (simp add: dispatch_def try_prop_def)
  have w: "reconnectTimeout (fst (editor_setValue c ?u1)) = 1000"
  proof (cases "editorRef ?u1")
    case None
    then show ?thesis by (simp add: editor_setValue_def)
  next
    case (Some ed)
    show ?thesis
    proof (cases c)
      case (JStr t)
      have "isRemoteChange ?u1" by simp
      from setValue_suppressed [OF this Some, of t] show ?thesis using JStr by simp
    qed (use Some in \<open>simp_all add: editor_setValue_def\<close>)
  qed
  have a: "reconnectTimeout (fst (and_then r (\<lambda>s2. (s2\<lparr>isRemoteChange := False\<rparr>, None))))
             = reconnectTimeout (fst r)" for r
    by (cases r; cases "snd r") (simp_all add: and_then_def)
  show ?thesis
    unfolding d handle_init_payload [OF assms(2,3)]
    using w by (simp add: a split: option.splits)
qed

text \<open>
  What the reset does achieve. While the component waits on the socket that it has opened
  itself, the socket opens and the server's \<^verbatim>\<open>init\<close> arrives on it: the interval is
  back at 1000 ms.
\<close>

lemma connection_of_component_resets_backoff:
  assumes "awaiting s" and "current_socket s = Some k"
      and "readyState (sockets s ! k) = CONNECTING"
      and "get_prop m ''type'' = Inr (JStr ''init'')" and "get_prop m ''data'' = Inr dd"
      and "get_prop dd ''code'' = Inr c"
  shows "reconnectTimeout (handle (SockMessage k (Some m)) (handle (SockOpen k) s)) = 1000"
proof -
  from assms(1) obtain i k' where a: "wsService s = Some i" "i < length (services s)"
    "ws (services s ! i) = Some k'" "k' < length (sockets s)" "owner (sockets s ! k') = i"
    "onclose (sockets s ! k') = CallbackThenReconnect" "readyState (sockets s ! k') \<noteq> CLOSED"
    "\<forall>x\<in>set (timers s). tid x < next_timer s \<and> other_timer i x"
    "reconnectTimer s = None" "\<not> list_ex (\<lambda>r. status r = Aborted) (requests s)"
    "onmessage (sockets s ! k') = ParseThenCallback" "alive s" "renderable (userCount s)"
    by (rule awaitingE)
  have k: "k' = k" using assms(2) a(1,3) by (simp add: current_socket_def)
  define u where "u = handle (SockOpen k) s"
  have u: "k < length (sockets u)" "readyState (sockets u ! k) = OPEN"
    "onmessage (sockets u ! k) = ParseThenCallback" "renderable (userCount u)"
    using a(4,10,11,13) assms(3) unfolding k u_def
    by (simp_all add: handle_def react_def onopen_def console_log_def settle_def rerender_def
        drain_def Let_def)
  have r: "react (SockMessage k (Some m)) u = fst (parse_then_callback (Some m) u)"
    using u by (simp add: react_def)
  have "userCount (fst (dispatch m u)) = userCount u"
    using assms(4) by (intro dispatch_userCount) simp_all
  then have "renderable (userCount (react (SockMessage k (Some m)) u))"
    using u(4) by (simp add: r parse_then_callback_shown)
  then have "handle (SockMessage k (Some m)) u = drain (react (SockMessage k (Some m)) u)"
    unfolding handle_def by (rule settle_rendered)
  then have h: "handle (SockMessage k (Some m)) u = drain (fst (parse_then_callback (Some m) u))"
    by (simp only: r)
  have d: "reconnectTimeout (drain x) = reconnectTimeout x" for x
    by (simp add: drain_def fetch_finally_def setAiLoading_def)
  have p: "reconnectTimeout (fst (parse_then_callback (Some m) u))
             = reconnectTimeout (fst (dispatch m u))"
    by (cases "dispatch m u"; cases "snd (dispatch m u)")
      (simp_all add: parse_then_callback_def console_error_def)
  have "reconnectTimeout (handle (SockMessage k (Some m)) u) = 1000"
    unfolding h d p by (rule init_resets_backoff [OF assms(4-6)])
  then show ?thesis by (simp only: u_def)
qed

text \<open>
  Claim C3 asks that the backoff interval doubles with each failure up to its ceiling and
  is set back to its base on every successful reconnection. The doubling and the ceiling
  hold, and the code resets the interval where it handles \<^verbatim>\<open>init\<close>, under the comment
  \<^verbatim>\<open>Reset backoff on successful connection\<close>: after two failures the interval is
  4000 ms, and when the component's socket 3 opens and \<^verbatim>\<open>init\<close> arrives on it, the
  interval is 1000 ms again. But the connection also comes back through the reconnect of
  the service, and the socket that \<^verbatim>\<open>connect\<close> opens then carries no message handler:
  \<^verbatim>\<open>init\<close> is dropped and the interval is not reset. When socket 3 closes, service 2
  reconnects after its 2000 ms, its socket 5 opens and \<^verbatim>\<open>init\<close> is delivered; the
  interval is still 4000 ms and the view is still not connected; when the component's
  timer fires at 7030 it closes the open socket, and the interval becomes 8000 ms.
\<close>

theorem backoff_not_reset_when_service_reconnects:
  "reconnectTimeout (advance 3020 (run outage init_world)) = 4000
 \<and> current_socket (advance 3020 (run outage init_world)) = Some 3
 \<and> reconnectTimeout (run (outage @ direct_recovery) init_world) = 1000
 \<and> connected (run (outage @ direct_recovery) init_world)
 \<and> current_socket (run (outage @ service_recovery) init_world) = Some 5
 \<and> readyState (sockets (run (outage @ service_recovery) init_world) ! 5) = OPEN
 \<and> onmessage (sockets (run (outage @ service_recovery) init_world) ! 5) = Unset
 \<and> reconnectTimeout (run (outage @ service_recovery) init_world) = 4000
 \<and> \<not> connected (run (outage @ service_recovery) init_world)
 \<and> reconnectTimeout (advance 7030 (run (outage @ service_recovery) init_world)) = 8000
 \<and> readyState (sockets (advance 7030 (run (outage @ service_recovery) init_world)) ! 5)
     = CLOSING"
  by (simp add: outage_def direct_recovery_def service_recovery_def model_defs)

end
